theory Spec2Isabelle
  imports Main "HOL-Library.Sublist"
begin

section \<open>Shared data model\<close>

text \<open>
  The scripts subclass \<open>DD\<close> and return one of its three class constants from
  \<open>_test\<close>: \<open>self.PASS\<close>, \<open>self.FAIL\<close>, \<open>self.UNRESOLVED\<close>.
\<close>

datatype verdict = PASS | FAIL | UNRESOLVED

text \<open>The exceptions that the modelled Python code can raise.\<close>

datatype exn = OSError | ValueError | IndexError | NameError | GdbException string

section \<open>gdb-tracer.py: consolidating the target ranges\<close>

text \<open>
  \<open>GdbTracer._consolidate_target_ranges\<close>: the \<open>for\<close> loop over
  \<open>self.target_ranges\<close> with its three locals \<open>copy\<close>, \<open>previous_start\<close> and
  \<open>previous_end\<close>; after the loop the pending range is appended unconditionally.
\<close>

fun consolidate_loop ::
  "(int \<times> int) list \<Rightarrow> (int \<times> int) list \<Rightarrow> int \<Rightarrow> int \<Rightarrow> (int \<times> int) list" where
  "consolidate_loop [] copy previous_start previous_end =
     copy @ [(previous_start, previous_end)]"
| "consolidate_loop ((start, stop) # rest) copy previous_start previous_end =
     (if start \<noteq> previous_end
      then consolidate_loop rest
             (if previous_start \<noteq> previous_end
              then copy @ [(previous_start, previous_end)] else copy)
             start stop
      else consolidate_loop rest copy previous_start stop)"

definition consolidate_target_ranges :: "(int \<times> int) list \<Rightarrow> (int \<times> int) list" where
  "consolidate_target_ranges target_ranges = consolidate_loop target_ranges [] 0 0"

text \<open>
  \<open>GdbTracer._we_are_not_in_kansas_anymore\<close>: \<open>False\<close> as soon as one range
  contains \<open>pc\<close> (both bounds inclusive), \<open>True\<close> when none does.
\<close>

fun we_are_not_in_kansas_anymore :: "(int \<times> int) list \<Rightarrow> int \<Rightarrow> bool" where
  "we_are_not_in_kansas_anymore [] pc = True"
| "we_are_not_in_kansas_anymore ((start, stop) # rest) pc =
     (if pc \<ge> start \<and> pc \<le> stop then False
      else we_are_not_in_kansas_anymore rest pc)"

subsection \<open>Classification before and after consolidation\<close>

lemma kansas_append:
  "we_are_not_in_kansas_anymore (xs @ ys) pc =
     (we_are_not_in_kansas_anymore xs pc \<and> we_are_not_in_kansas_anymore ys pc)"
  by (induction xs) (auto split: if_splits)

text \<open>
  The loop invariant: with a pending range that is not degenerate and input ranges that
  are not degenerate either, an address is outside the result exactly when it is
  outside what was copied, outside the pending range and outside the remaining input.
\<close>

lemma consolidate_loop_kansas:
  "\<forall>r\<in>set rs. fst r < snd r \<Longrightarrow> ps < pe \<Longrightarrow>
   we_are_not_in_kansas_anymore (consolidate_loop rs copy ps pe) pc =
     (we_are_not_in_kansas_anymore copy pc \<and> \<not> (ps \<le> pc \<and> pc \<le> pe)
      \<and> we_are_not_in_kansas_anymore rs pc)"
proof (induction rs arbitrary: copy ps pe)
  case Nil
  then show ?case by (simp add: kansas_append)
next
  case (Cons r rs)
  obtain s e where r: "r = (s, e)" by (cases r)
  from Cons.prems r have se: "s < e" and rest: "\<forall>r\<in>set rs. fst r < snd r" by auto
  show ?case
  proof (cases "s = pe")
    case True
    have "ps < e" using Cons.prems(2) se True by simp
    from Cons.IH[OF rest this, of copy] show ?thesis
      using r True Cons.prems(2) se by auto
  next
    case False
    from Cons.IH[OF rest se, of "copy @ [(ps, pe)]"] show ?thesis
      using r False Cons.prems(2) by (auto simp: kansas_append)
  qed
qed

lemma consolidate_kansas:
  assumes "rs \<noteq> []" and "\<forall>r\<in>set rs. fst r < snd r"
  shows "we_are_not_in_kansas_anymore (consolidate_target_ranges rs) pc =
         we_are_not_in_kansas_anymore rs pc"
proof -
  obtain s e rest where rs: "rs = (s, e) # rest" using assms(1) by (cases rs) auto
  from assms(2) rs have se: "s < e" and rest: "\<forall>r\<in>set rest. fst r < snd r" by auto
  show ?thesis
  proof (cases "s = 0")
    case True
    then have "0 < e" using se by simp
    from consolidate_loop_kansas[OF rest this, of "[]" pc] show ?thesis
      using rs True by (simp add: consolidate_target_ranges_def)
  next
    case False
    from consolidate_loop_kansas[OF rest se, of "[]" pc] show ?thesis
      using rs False by (simp add: consolidate_target_ranges_def)
  qed
qed

text \<open>Ranges none of which starts where its predecessor ends are copied unchanged.\<close>

lemma consolidate_loop_separate:
  "\<forall>r\<in>set rs. fst r < snd r \<Longrightarrow> ps < pe \<Longrightarrow>
   successively (\<lambda>a b. fst b \<noteq> snd a) ((ps, pe) # rs) \<Longrightarrow>
   consolidate_loop rs copy ps pe = copy @ (ps, pe) # rs"
proof (induction rs arbitrary: copy ps pe)
  case Nil
  then show ?case by simp
next
  case (Cons r rs)
  obtain s e where r: "r = (s, e)" by (cases r)
  from Cons.prems r have se: "s < e" and rest: "\<forall>r\<in>set rs. fst r < snd r"
    and ne: "s \<noteq> pe" and succ: "successively (\<lambda>a b. fst b \<noteq> snd a) ((s, e) # rs)"
    by auto
  from Cons.IH[OF rest se succ, of "copy @ [(ps, pe)]"] show ?case
    using r ne Cons.prems(2) by simp
qed

lemma consolidate_separate:
  assumes "rs \<noteq> []" "\<forall>r\<in>set rs. fst r < snd r" "fst (hd rs) \<noteq> 0"
    "successively (\<lambda>a b. fst b \<noteq> snd a) rs"
  shows "consolidate_target_ranges rs = rs"
proof -
  obtain s e rest where rs: "rs = (s, e) # rest" using assms(1) by (cases rs) auto
  from assms rs have se: "s < e" and rest: "\<forall>r\<in>set rest. fst r < snd r" and s0: "s \<noteq> 0"
    and succ: "successively (\<lambda>a b. fst b \<noteq> snd a) ((s, e) # rest)" by auto
  from consolidate_loop_separate[OF rest se succ, of "[]"] show ?thesis
    using rs s0 by (simp add: consolidate_target_ranges_def)
qed

text \<open>
  C9, as stated, fails: a range whose start equals its end contains one address for
  \<open>_we_are_not_in_kansas_anymore\<close>, and \<open>_consolidate_target_ranges\<close> drops it when
  the next range does not start at that address. Address 5 is inside \<open>[(5,5), (7,8)]\<close>
  before consolidation and outside after it.
\<close>

theorem consolidate_drops_degenerate_range:
  "consolidate_target_ranges [(5, 5), (7, 8)] = [(7, 8)]
   \<and> we_are_not_in_kansas_anymore [(5, 5), (7, 8)] 5 = False
   \<and> we_are_not_in_kansas_anymore (consolidate_target_ranges [(5, 5), (7, 8)]) 5 = True"
  by (simp add: consolidate_target_ranges_def)

text \<open>
  C9, amended: for every non-empty list of ranges each of which has its start strictly
  below its end, and every \<open>pc\<close>, \<open>_we_are_not_in_kansas_anymore\<close> gives the same
  answer on the consolidated list as on the original one; when moreover the first range
  does not start at 0 and no range starts where its predecessor ends, consolidation
  leaves the list unchanged (only exactly contiguous ranges are merged). The empty list
  becomes \<open>[(0, 0)]\<close>, so that address 0 is inside after consolidation and outside
  before.
\<close>

theorem consolidate_target_ranges_preserves_classification:
  "(target_ranges \<noteq> [] \<and> (\<forall>r\<in>set target_ranges. fst r < snd r) \<longrightarrow>
      we_are_not_in_kansas_anymore (consolidate_target_ranges target_ranges) pc =
      we_are_not_in_kansas_anymore target_ranges pc)
   \<and> (target_ranges \<noteq> [] \<and> (\<forall>r\<in>set target_ranges. fst r < snd r)
        \<and> fst (hd target_ranges) \<noteq> 0
        \<and> successively (\<lambda>a b. fst b \<noteq> snd a) target_ranges \<longrightarrow>
      consolidate_target_ranges target_ranges = target_ranges)
   \<and> consolidate_target_ranges [] = [(0, 0)]
   \<and> we_are_not_in_kansas_anymore (consolidate_target_ranges []) 0 = False
   \<and> we_are_not_in_kansas_anymore [] 0 = True"
proof -
  have empty: "consolidate_target_ranges [] = [(0, 0)]"
    by (simp add: consolidate_target_ranges_def)
  show ?thesis
    using consolidate_kansas[of target_ranges pc] consolidate_separate[of target_ranges]
    by (simp add: empty)
qed

theorem consolidate_target_ranges_preserves_classification_witness:
  "[(1, 3), (3, 7), (10, 12)] \<noteq> ([] :: (int \<times> int) list)
   \<and> list_all (\<lambda>r. fst r < snd r) [(1, 3), (3, 7), (10 :: int, 12 :: int)]
   \<and> consolidate_target_ranges [(1, 3), (3, 7), (10, 12)] = [(1, 7), (10, 12)]
   \<and> we_are_not_in_kansas_anymore (consolidate_target_ranges [(1, 3), (3, 7), (10, 12)]) 5
       = we_are_not_in_kansas_anymore [(1, 3), (3, 7), (10, 12)] 5
   \<and> we_are_not_in_kansas_anymore [(1, 3), (3, 7), (10, 12)] 5 = False
   \<and> fst (hd [(4, 6), (8, 9 :: int)]) \<noteq> (0 :: int)
   \<and> successively (\<lambda>a b. fst b \<noteq> snd a) [(4, 6), (8, 9 :: int)]
   \<and> consolidate_target_ranges [(4, 6), (8, 9)] = [(4, 6), (8, 9)]"
proof -
  have a: "we_are_not_in_kansas_anymore (consolidate_target_ranges [(1, 3), (3, 7), (10, 12)]) 5
       = we_are_not_in_kansas_anymore [(1, 3), (3, 7), (10, 12)] 5"
    using consolidate_target_ranges_preserves_classification
            [of "[(1, 3), (3, 7), (10, 12)]" 5]
    by simp
  have b: "consolidate_target_ranges [(4, 6), (8, 9)] = [(4, 6), (8, 9)]"
    using consolidate_target_ranges_preserves_classification [of "[(4, 6), (8, 9)]" 0]
    by simp
  have c: "consolidate_target_ranges [(1, 3), (3, 7), (10, 12)] = [(1, 7), (10, 12)]"
    by (simp add: consolidate_target_ranges_def)
  show ?thesis using a b c by simp
qed


section \<open>gdb.py: setting a breakpoint\<close>

text \<open>
  Python strings are modelled as lists of 8-bit characters (code points below 256).
  \<open>str.strip()\<close> removes the characters for which \<open>str.isspace\<close> holds from both
  ends; below 256 these are 9-13, 28-32, 133 and 160.
\<close>

definition py_isspace :: "char \<Rightarrow> bool" where
  "py_isspace c =
     (let n = (of_char c :: nat)
      in (9 \<le> n \<and> n \<le> 13) \<or> (28 \<le> n \<and> n \<le> 32) \<or> n = 133 \<or> n = 160)"

definition py_strip :: "string \<Rightarrow> string" where
  "py_strip s = rev (dropWhile py_isspace (rev (dropWhile py_isspace s)))"

text \<open>\<open>s.split(" ")\<close>: cut at every single space; empty pieces are kept.\<close>

fun py_split_space :: "string \<Rightarrow> string list" where
  "py_split_space [] = [[]]"
| "py_split_space (c # cs) =
     (if c = CHR '' '' then [] # py_split_space cs
      else (case py_split_space cs of
              w # ws \<Rightarrow> (c # w) # ws
            | [] \<Rightarrow> [[c]]))"

text \<open>
  \<open>Gdb.send_input\<close> writes the data to gdb and, with \<open>read_to_prompt\<close>, returns what
  gdb printed up to its prompt, stripped; \<open>Gdb._send_command\<close> sends the command
  followed by a newline and strips the result once more. The gdb session is a parameter:
  the text it prints in reply to what is written to it.
\<close>

definition send_input :: "(string \<Rightarrow> string) \<Rightarrow> string \<Rightarrow> string" where
  "send_input gdb data = py_strip (gdb data)"

definition send_command :: "(string \<Rightarrow> string) \<Rightarrow> string \<Rightarrow> string" where
  "send_command gdb cmd = py_strip (send_input gdb (cmd @ [CHR 0x0A]))"

text \<open>
  \<open>Gdb.set_breakpoint\<close>. Python's built-in \<open>int\<close> is a parameter \<open>py_int\<close>
  (\<open>None\<close> where \<open>int\<close> raises \<open>ValueError\<close>). Indexing \<open>parts[1]\<close> and
  \<open>parts[3]\<close> raises \<open>IndexError\<close> when the list is too short; \<open>int(parts[1])\<close> is
  evaluated before \<open>parts[3]\<close>.
\<close>

definition set_breakpoint ::
  "(string \<Rightarrow> string) \<Rightarrow> (string \<Rightarrow> int option) \<Rightarrow> string \<Rightarrow> exn + (int \<times> string)" where
  "set_breakpoint gdb py_int symbol =
     (let cmd = ''b '' @ symbol;
          response = send_command gdb cmd
      in if \<not> prefix ''Breakpoint '' response then Inl (GdbException response)
         else let parts = py_split_space (py_strip response)
              in if length parts \<le> 1 then Inl IndexError
                 else (case py_int (parts ! 1) of
                         None \<Rightarrow> Inl ValueError
                       | Some num \<Rightarrow>
                           if length parts \<le> 3 then Inl IndexError
                           else Inr (num, parts ! 3)))"

text \<open>
  A fragment of Python's \<open>int\<close> used to run \<open>set_breakpoint\<close> on concrete replies:
  on a non-empty string of ASCII digits it is the decimal value, as Python's \<open>int\<close>
  is; every other string is rejected here.
\<close>

definition digit_val :: "char \<Rightarrow> int" where
  "digit_val c = int (of_char c) - 48"

definition is_digit :: "char \<Rightarrow> bool" where
  "is_digit c = (48 \<le> (of_char c :: nat) \<and> (of_char c :: nat) \<le> 57)"

definition int_of_digits :: "string \<Rightarrow> int option" where
  "int_of_digits s =
     (if s \<noteq> [] \<and> list_all is_digit s
      then Some (foldl (\<lambda>acc c. 10 * acc + digit_val c) 0 s) else None)"

text \<open>A gdb session that prints the same line in reply to whatever it is sent.\<close>

definition gdb_replies :: "string \<Rightarrow> string \<Rightarrow> string" where
  "gdb_replies reply data = reply @ [CHR 0x0A]"

subsection \<open>The outcomes of setting a breakpoint\<close>




section \<open>dd-algorithm-example.py: the example oracle\<close>

text \<open>
  \<open>TestDD._test\<close>: collect the payloads equal to "1", "7" or "8", then \<open>FAIL\<close> when
  each of the three occurs exactly once and \<open>PASS\<close> otherwise. The payloads are Python
  strings. The \<open>print\<close> of the tested case has no effect on the result.
\<close>

definition TestDD_test :: "(int \<times> string) list \<Rightarrow> verdict" where
  "TestDD_test deltas =
     (let found = filter (\<lambda>byte. byte = ''1'' \<or> byte = ''7'' \<or> byte = ''8'')
                    (map snd deltas)
      in if count_list found ''1'' = 1 \<and> count_list found ''7'' = 1
            \<and> count_list found ''8'' = 1
         then FAIL else PASS)"

text \<open>
  The conversion of the input string into deltas in the main program:
  \<open>list(map(lambda x: (x, test_input[x]), range(len(test_input))))\<close>.
\<close>

definition string_to_deltas :: "string \<Rightarrow> (int \<times> string) list" where
  "string_to_deltas test_input =
     map (\<lambda>x. (int x, [test_input ! x])) [0..<length test_input]"

section \<open>The \<open>ddmin\<close> engine\<close>

text \<open>
  The scripts call \<open>DD.ddmin\<close>, whose module \<open>delta_debugging/DD.py\<close> is not among
  the source files. The engine is therefore modelled from the specification (section
  4.3), over configurations of any element type and an oracle given as a function.
\<close>

text \<open>
  Modelled from the spec: the partition of step 1 of \<open>ddmin\<close> (module \<open>DD.py\<close> is
  missing). A configuration is cut into \<open>n\<close> contiguous pieces in the original order,
  whose sizes differ by at most one: the first piece takes \<open>|C| div n\<close> elements, the
  rest is cut into \<open>n - 1\<close> pieces in the same way.
\<close>

fun partition_config :: "'a list \<Rightarrow> nat \<Rightarrow> 'a list list" where
  "partition_config c 0 = []"
| "partition_config c (Suc k) =
     take (length c div Suc k) c # partition_config (drop (length c div Suc k) c) k"

text \<open>
  Modelled from the spec: the complements \<open>C - \<Delta>i\<close> of step 3 (module \<open>DD.py\<close> is
  missing), in the order of the pieces: the configuration with the \<open>i\<close>-th piece removed.
\<close>

definition complements :: "'a list list \<Rightarrow> 'a list list" where
  "complements cs = map (\<lambda>i. concat (take i cs @ drop (Suc i) cs)) [0..<length cs]"

lemma length_partition_config: "length (partition_config c n) = n"
  by (induction n arbitrary: c) auto

lemma concat_partition_config: "0 < n \<Longrightarrow> concat (partition_config c n) = c"
proof (induction n arbitrary: c)
  case 0
  then show ?case by simp
next
  case (Suc k)
  show ?case
  proof (cases "k = 0")
    case True
    then show ?thesis by simp
  next
    case False
    then have "concat (partition_config (drop (length c div Suc k) c) k)
                 = drop (length c div Suc k) c"
      using Suc.IH by simp
    then show ?thesis by simp
  qed
qed

lemma div_le_shrink: "0 < k \<Longrightarrow> Suc k \<le> m \<Longrightarrow> k \<le> m - m div Suc k"
proof -
  assume k: "0 < k" and m: "Suc k \<le> m"
  define q where "q = m div Suc k"
  have "q * Suc k \<le> m" unfolding q_def by (rule div_times_less_eq_dividend)
  then have a: "q + q * k \<le> m" by (simp add: algebra_simps)
  have "1 \<le> q" unfolding q_def using m by (simp add: Suc_le_eq div_greater_zero_iff)
  then have "k \<le> q * k" by simp
  with a have "k \<le> m - q" by linarith
  then show ?thesis unfolding q_def .
qed

lemma partition_config_nonempty:
  "n \<le> length c \<Longrightarrow> d \<in> set (partition_config c n) \<Longrightarrow> d \<noteq> []"
proof (induction n arbitrary: c)
  case 0
  then show ?case by simp
next
  case (Suc k)
  have pos: "0 < length c div Suc k" using Suc.prems(1) by (simp add: div_greater_zero_iff)
  from Suc.prems(2) consider "d = take (length c div Suc k) c"
    | "d \<in> set (partition_config (drop (length c div Suc k) c) k)" by auto
  then show ?case
  proof cases
    case 1
    then show ?thesis using pos Suc.prems(1) by auto
  next
    case 2
    show ?thesis
    proof (cases "k = 0")
      case True
      then show ?thesis using 2 by simp
    next
      case False
      then have "k \<le> length c - length c div Suc k"
        using div_le_shrink[of k "length c"] Suc.prems(1) by simp
      then have "k \<le> length (drop (length c div Suc k) c)" by simp
      from Suc.IH[OF this 2] show ?thesis .
    qed
  qed
qed

lemma partition_config_singletons:
  "partition_config c (length c) = map (\<lambda>x. [x]) c"
proof (induction c)
  case Nil
  then show ?case by simp
next
  case (Cons x xs)
  then show ?case by simp
qed

lemma length_concat_remove:
  "i < length cs \<Longrightarrow>
   length (concat (take i cs @ drop (Suc i) cs)) + length (cs ! i) = length (concat cs)"
proof -
  assume i: "i < length cs"
  have "concat cs = concat (take i cs @ cs ! i # drop (Suc i) cs)"
    using id_take_nth_drop[OF i] by simp
  then show ?thesis by simp
qed

lemma length_le_concat: "\<forall>x\<in>set xs. x \<noteq> [] \<Longrightarrow> length xs \<le> length (concat xs)"
proof (induction xs)
  case Nil
  then show ?case by simp
next
  case (Cons x xs)
  then have "1 \<le> length x" by (cases x) auto
  with Cons show ?case by auto
qed

lemma subseq_concat_remove:
  "i < length cs \<Longrightarrow> subseq (concat (take i cs @ drop (Suc i) cs)) (concat cs)"
proof -
  assume i: "i < length cs"
  have eq: "concat cs = concat (take i cs) @ cs ! i @ concat (drop (Suc i) cs)"
    using arg_cong[OF id_take_nth_drop[OF i], of concat] by simp
  have "subseq (concat (drop (Suc i) cs)) (cs ! i @ concat (drop (Suc i) cs))"
    by (simp add: list_emb_append2)
  then have "subseq (concat (take i cs) @ concat (drop (Suc i) cs))
               (concat (take i cs) @ cs ! i @ concat (drop (Suc i) cs))"
    by (simp only: subseq_append')
  then show ?thesis using eq by simp
qed

lemma subseq_nth_concat: "i < length cs \<Longrightarrow> subseq (cs ! i) (concat cs)"
proof -
  assume i: "i < length cs"
  have eq: "concat cs = concat (take i cs) @ cs ! i @ concat (drop (Suc i) cs)"
    using arg_cong[OF id_take_nth_drop[OF i], of concat] by simp
  have "subseq (cs ! i) (cs ! i @ concat (drop (Suc i) cs))"
    by (rule list_emb_append_mono[of _ _ _ "[]", simplified]) simp_all
  then have "subseq (cs ! i) (concat (take i cs) @ cs ! i @ concat (drop (Suc i) cs))"
    by (rule list_emb_append2)
  then show ?thesis using eq by simp
qed

text \<open>Facts about the pieces and complements of a partition into 2 \<le> n \<le> |c| pieces.\<close>

lemma piece_props:
  assumes "2 \<le> n" "n \<le> length c" "d \<in> set (partition_config c n)"
  shows "length d < length c" and "subseq d c" and "d \<noteq> []"
proof -
  let ?cs = "partition_config c n"
  from assms(3) obtain i where i: "i < length ?cs" and d: "d = ?cs ! i"
    by (auto simp: in_set_conv_nth)
  have cc: "concat ?cs = c" using assms(1) by (simp add: concat_partition_config)
  have ne: "\<forall>x\<in>set ?cs. x \<noteq> []" using partition_config_nonempty[OF assms(2)] by blast
  show "d \<noteq> []" using ne assms(3) by blast
  show "subseq d c" using subseq_nth_concat[OF i] cc d by simp
  have "\<forall>x\<in>set (take i ?cs @ drop (Suc i) ?cs). x \<noteq> []"
    using ne by (auto dest: in_set_takeD in_set_dropD)
  from length_le_concat[OF this]
  have "n - 1 \<le> length (concat (take i ?cs @ drop (Suc i) ?cs))"
    using i by (simp add: length_partition_config min_def)
  with length_concat_remove[OF i] cc d assms(1) show "length d < length c" by simp
qed

lemma complement_props:
  assumes "2 \<le> n" "n \<le> length c" "d \<in> set (complements (partition_config c n))"
  shows "length d < length c" and "subseq d c" and "n - 1 \<le> length d"
proof -
  let ?cs = "partition_config c n"
  from assms(3) obtain i where i: "i < length ?cs"
    and d: "d = concat (take i ?cs @ drop (Suc i) ?cs)"
    by (auto simp: complements_def)
  have cc: "concat ?cs = c" using assms(1) by (simp add: concat_partition_config)
  have ne: "\<forall>x\<in>set ?cs. x \<noteq> []" using partition_config_nonempty[OF assms(2)] by blast
  have "?cs ! i \<noteq> []" using ne i by simp
  then have pos: "0 < length (?cs ! i)" by simp
  have "length d + length (?cs ! i) = length c"
    using length_concat_remove[OF i] cc d by simp
  with pos show "length d < length c" by linarith
  show "subseq d c" using subseq_concat_remove[OF i] cc d by simp
  have "\<forall>x\<in>set (take i ?cs @ drop (Suc i) ?cs). x \<noteq> []"
    using ne by (auto dest: in_set_takeD in_set_dropD)
  from length_le_concat[OF this] show "n - 1 \<le> length d"
    using i d by (simp add: length_partition_config min_def)
qed

lemma complements_singletons:
  "complements (map (\<lambda>x. [x]) c) = map (\<lambda>i. take i c @ drop (Suc i) c) [0..<length c]"
  by (simp add: complements_def take_map drop_map)

text \<open>
  Modelled from the spec: the state machine of section 4.3 over (configuration,
  granularity) (module \<open>DD.py\<close> is missing). Subsets are tried before complements, both
  left to right, and the first \<open>FAIL\<close> is acted on; \<open>UNRESOLVED\<close> counts as not
  \<open>FAIL\<close>. The granularity is bounded above by \<open>|C|\<close>: a configuration with fewer than
  \<open>n\<close> elements cannot be cut into \<open>n\<close> non-empty pieces and is returned with no oracle
  call, which is the spec's scenario of the one-element universe. The granularity starts
  at 2 and never falls below it; the first test of the guard makes the function total
  for the other values of \<open>n\<close>.
\<close>

function ddmin_loop :: "('a list \<Rightarrow> verdict) \<Rightarrow> 'a list \<Rightarrow> nat \<Rightarrow> 'a list" where
  "ddmin_loop test c n =
     (if n < 2 \<or> length c < n then c
      else (case find (\<lambda>d. test d = FAIL) (partition_config c n) of
              Some d \<Rightarrow> ddmin_loop test d 2
            | None \<Rightarrow>
                (case find (\<lambda>d. test d = FAIL) (complements (partition_config c n)) of
                   Some d \<Rightarrow> ddmin_loop test d (max (n - 1) 2)
                 | None \<Rightarrow>
                     if n < length c then ddmin_loop test c (min (2 * n) (length c))
                     else c)))"
  by pat_completeness auto
termination
proof (relation "measures [\<lambda>(t, c, n). length c, \<lambda>(t, c, n). length c - n]", goal_cases)
  case 1
  then show ?case by simp
next
  case (2 test c n)
  then show ?case by auto
next
  case (3 test c n d)
  then have "d \<in> set (complements (partition_config c n))"
    by (auto simp: find_Some_iff)
  with 3 complement_props(1)[of n c d] show ?case by simp
next
  case (4 test c n d)
  then have "d \<in> set (partition_config c n)" by (auto simp: find_Some_iff)
  with 4 piece_props(1)[of n c d] show ?case by simp
qed

declare ddmin_loop.simps [simp del]

text \<open>
  Modelled from the spec: the entry point \<open>ddmin\<close> (module \<open>DD.py\<close> is missing).
  Section 7: a universe that does not evaluate to \<open>FAIL\<close> is a caller error and the
  engine fails fast; otherwise the search starts at granularity 2.
\<close>

datatype dd_error = PreconditionViolation

definition ddmin :: "('a list \<Rightarrow> verdict) \<Rightarrow> 'a list \<Rightarrow> dd_error + 'a list" where
  "ddmin test universe =
     (if test universe \<noteq> FAIL then Inl PreconditionViolation
      else Inr (ddmin_loop test universe 2))"

text \<open>
  1-minimality of a configuration: removing the element at any one position gives a
  configuration on which the oracle does not answer \<open>FAIL\<close>.
\<close>

definition one_minimal :: "('a list \<Rightarrow> verdict) \<Rightarrow> 'a list \<Rightarrow> bool" where
  "one_minimal test m = (\<forall>i<length m. test (take i m @ drop (Suc i) m) \<noteq> FAIL)"

text \<open>
  The invariant of the search: the configuration fails, and the granularity is at least
  2 and at most \<open>|C|\<close> unless the configuration has at most one element.
\<close>

lemma ddmin_loop_correct:
  "test c = FAIL \<Longrightarrow> test [] \<noteq> FAIL \<Longrightarrow> 2 \<le> n \<Longrightarrow> n \<le> length c \<or> length c \<le> 1 \<Longrightarrow>
   subseq (ddmin_loop test c n) c \<and> test (ddmin_loop test c n) = FAIL
   \<and> one_minimal test (ddmin_loop test c n)"
proof (induction test c n rule: ddmin_loop.induct)
  case (1 test c n)
  let ?cs = "partition_config c n"
  show ?case
  proof (cases "length c < n")
    case True
    then have r: "ddmin_loop test c n = c" by (simp add: ddmin_loop.simps)
    from True "1.prems" have "length c \<le> 1" by simp
    then have "one_minimal test c"
      using "1.prems"(2) by (cases c) (auto simp: one_minimal_def)
    with r "1.prems"(1) show ?thesis by simp
  next
    case False
    with "1.prems" have g: "\<not> (n < 2 \<or> length c < n)" and nle: "n \<le> length c" by auto
    show ?thesis
    proof (cases "find (\<lambda>d. test d = FAIL) ?cs")
      case (Some d)
      then have r: "ddmin_loop test c n = ddmin_loop test d 2"
        using g by (subst ddmin_loop.simps) simp
      from Some have din: "d \<in> set ?cs" and dfail: "test d = FAIL"
        by (auto simp: find_Some_iff)
      have sub: "subseq d c" using piece_props(2)[OF "1.prems"(3) nle din] .
      have "subseq (ddmin_loop test d 2) d \<and> test (ddmin_loop test d 2) = FAIL
            \<and> one_minimal test (ddmin_loop test d 2)"
      proof -
        have "2 \<le> length d \<or> length d \<le> 1" by linarith
        from "1.IH"(3)[OF g Some dfail "1.prems"(2) _ this] show ?thesis by simp
      qed
      with r sub show ?thesis by (auto intro: subseq_order.trans)
    next
      case None
      show ?thesis
      proof (cases "find (\<lambda>d. test d = FAIL) (complements ?cs)")
        case (Some d)
        then have r: "ddmin_loop test c n = ddmin_loop test d (max (n - 1) 2)"
          using g None by (subst ddmin_loop.simps) simp
        from Some have din: "d \<in> set (complements ?cs)" and dfail: "test d = FAIL"
          by (auto simp: find_Some_iff)
        have sub: "subseq d c" using complement_props(2)[OF "1.prems"(3) nle din] .
        have "n - 1 \<le> length d" using complement_props(3)[OF "1.prems"(3) nle din] .
        then have inv: "max (n - 1) 2 \<le> length d \<or> length d \<le> 1" by auto
        have "subseq (ddmin_loop test d (max (n - 1) 2)) d
              \<and> test (ddmin_loop test d (max (n - 1) 2)) = FAIL
              \<and> one_minimal test (ddmin_loop test d (max (n - 1) 2))"
        proof -
          have "2 \<le> max (n - 1) 2" by simp
          from "1.IH"(2)[OF g None Some dfail "1.prems"(2) this inv] show ?thesis .
        qed
        with r sub show ?thesis by (auto intro: subseq_order.trans)
      next
        case None2: None
        show ?thesis
        proof (cases "n < length c")
          case True
          then have r: "ddmin_loop test c n = ddmin_loop test c (min (2 * n) (length c))"
            using g None None2 by (subst ddmin_loop.simps) simp
          have a: "2 \<le> min (2 * n) (length c)" using "1.prems"(3) nle by auto
          have b: "min (2 * n) (length c) \<le> length c \<or> length c \<le> 1" by auto
          from "1.IH"(1)[OF g None None2 True "1.prems"(1,2) a b] r show ?thesis by simp
        next
          case False
          then have r: "ddmin_loop test c n = c"
            using g None None2 by (subst ddmin_loop.simps) simp
          from False nle have n: "n = length c" by simp
          have "?cs = map (\<lambda>x. [x]) c" using n partition_config_singletons by metis
          then have "complements ?cs = map (\<lambda>i. take i c @ drop (Suc i) c) [0..<length c]"
            by (simp add: complements_singletons)
          with None2 have "one_minimal test c"
            by (auto simp: find_None_iff one_minimal_def)
          with r "1.prems"(1) show ?thesis by simp
        qed
      qed
    qed
  qed
qed

text \<open>An oracle that answers \<open>FAIL\<close> on every configuration.\<close>

definition always_fail :: "'a list \<Rightarrow> verdict" where
  "always_fail c = FAIL"

lemma remove1_positional:
  "d \<in> set m \<Longrightarrow> \<exists>i<length m. remove1 d m = take i m @ drop (Suc i) m"
proof (induction m)
  case Nil
  then show ?case by simp
next
  case (Cons x xs)
  show ?case
  proof (cases "x = d")
    case True
    then have "remove1 d (x # xs) = take 0 (x # xs) @ drop (Suc 0) (x # xs)" by simp
    then show ?thesis by blast
  next
    case False
    with Cons obtain i where "i < length xs" "remove1 d xs = take i xs @ drop (Suc i) xs"
      by auto
    then have "Suc i < length (x # xs)
               \<and> remove1 d (x # xs) = take (Suc i) (x # xs) @ drop (Suc (Suc i)) (x # xs)"
      using False by simp
    then show ?thesis by blast
  qed
qed

text \<open>
  C1, as stated, fails: the claim assumes nothing about the empty configuration. On a
  one-element universe and an oracle that answers \<open>FAIL\<close> everywhere, \<open>ddmin\<close>
  returns the universe (no element is left to remove, no further oracle call), and
  removing its only element gives the empty configuration, which is \<open>FAIL\<close>.
\<close>

theorem ddmin_not_minimal_when_empty_fails:
  "always_fail [1 :: nat] = FAIL
   \<and> ddmin always_fail [1 :: nat] = Inr [1]
   \<and> always_fail (take 0 [1 :: nat] @ drop (Suc 0) [1]) = FAIL
   \<and> \<not> one_minimal always_fail [1 :: nat]"
  by (simp add: ddmin_def always_fail_def ddmin_loop.simps one_minimal_def)

text \<open>
  C1, amended: for every universe \<open>U\<close> and every oracle with \<open>test(U) = FAIL\<close> and
  \<open>test([]) \<noteq> FAIL\<close>, \<open>ddmin(U)\<close> returns a configuration \<open>M\<close> that is a
  subsequence of \<open>U\<close> (so a subset, in the original order) with \<open>test(M) = FAIL\<close>,
  and removing any one element of \<open>M\<close> gives a configuration that is not \<open>FAIL\<close>.
\<close>

theorem ddmin_one_minimal:
  assumes "test universe = FAIL" and "test [] \<noteq> FAIL"
  shows "\<exists>m. ddmin test universe = Inr m \<and> subseq m universe \<and> set m \<subseteq> set universe
             \<and> test m = FAIL
             \<and> (\<forall>i<length m. test (take i m @ drop (Suc i) m) \<noteq> FAIL)
             \<and> (\<forall>d\<in>set m. test (remove1 d m) \<noteq> FAIL)"
proof -
  let ?m = "ddmin_loop test universe 2"
  have inv: "2 \<le> length universe \<or> length universe \<le> 1" by linarith
  from ddmin_loop_correct[OF assms _ inv]
  have sub: "subseq ?m universe" and fail: "test ?m = FAIL" and min1: "one_minimal test ?m"
    by simp_all
  have pos: "\<forall>i<length ?m. test (take i ?m @ drop (Suc i) ?m) \<noteq> FAIL"
    using min1 by (simp add: one_minimal_def)
  have rem: "\<forall>d\<in>set ?m. test (remove1 d ?m) \<noteq> FAIL"
  proof
    fix d assume "d \<in> set ?m"
    from remove1_positional[OF this] pos show "test (remove1 d ?m) \<noteq> FAIL" by auto
  qed
  have sset: "set ?m \<subseteq> set universe"
  proof
    fix x assume "x \<in> set ?m"
    from list_emb_set[OF sub this] show "x \<in> set universe" by auto
  qed
  show ?thesis using assms(1) sub sset fail pos rem by (simp add: ddmin_def)
qed

theorem ddmin_one_minimal_witness:
  "TestDD_test (string_to_deltas ''178'') = FAIL \<and> TestDD_test [] \<noteq> FAIL
   \<and> (\<exists>m. ddmin TestDD_test (string_to_deltas ''178'') = Inr m
            \<and> subseq m (string_to_deltas ''178'') \<and> TestDD_test m = FAIL)"
proof -
  have a: "TestDD_test (string_to_deltas ''178'') = FAIL" by code_simp
  have b: "TestDD_test [] \<noteq> FAIL" by (simp add: TestDD_test_def)
  from ddmin_one_minimal[OF a b] show ?thesis using a b by blast
qed

section \<open>The example oracle and its expected minimum\<close>

lemma count_list_filter:
  "count_list (filter P xs) y = (if P y then count_list xs y else 0)"
  by (induction xs) auto

text \<open>
  C2: \<open>TestDD._test\<close> returns \<open>FAIL\<close> if and only if the payloads contain exactly one
  "1", exactly one "7" and exactly one "8"; in every other case it returns \<open>PASS\<close>, and
  it never returns \<open>UNRESOLVED\<close>. The empty configuration gives \<open>PASS\<close>, the universe
  built from "12345678" gives \<open>FAIL\<close>, and \<open>ddmin\<close> with this oracle on that universe
  returns the three deltas "1", "7", "8" with their original indices 0, 6, 7 in
  ascending order.
\<close>

theorem TestDD_test_verdicts:
  "(TestDD_test deltas = FAIL) =
     (count_list (map snd deltas) ''1'' = 1 \<and> count_list (map snd deltas) ''7'' = 1
      \<and> count_list (map snd deltas) ''8'' = 1)
   \<and> (TestDD_test deltas = FAIL \<or> TestDD_test deltas = PASS)
   \<and> TestDD_test deltas \<noteq> UNRESOLVED
   \<and> TestDD_test [] = PASS
   \<and> TestDD_test (string_to_deltas ''12345678'') = FAIL
   \<and> ddmin TestDD_test (string_to_deltas ''12345678'')
       = Inr [(0, ''1''), (6, ''7''), (7, ''8'')]"
proof -
  have iff: "(TestDD_test deltas = FAIL) =
     (count_list (map snd deltas) ''1'' = 1 \<and> count_list (map snd deltas) ''7'' = 1
      \<and> count_list (map snd deltas) ''8'' = 1)"
    by (simp add: TestDD_test_def Let_def count_list_filter)
  have two: "TestDD_test deltas = FAIL \<or> TestDD_test deltas = PASS"
    by (simp add: TestDD_test_def Let_def)
  have never: "TestDD_test deltas \<noteq> UNRESOLVED"
    by (simp add: TestDD_test_def Let_def)
  have empty: "TestDD_test [] = PASS"
    by (simp add: TestDD_test_def)
  have full: "TestDD_test (string_to_deltas ''12345678'') = FAIL"
    by code_simp
  have minimum: "ddmin TestDD_test (string_to_deltas ''12345678'')
       = Inr [(0, ''1''), (6, ''7''), (7, ''8'')]"
    by code_simp
  from iff two never empty full minimum show ?thesis by blast
qed

theorem TestDD_test_verdicts_witness:
  "TestDD_test [(0, ''1''), (1, ''7''), (2, ''1''), (3, ''8'')] = PASS
   \<and> TestDD_test [(0, ''8''), (1, ''2''), (2, ''1''), (3, ''7'')] = FAIL"
proof -
  have a: "TestDD_test [(0, ''1''), (1, ''7''), (2, ''1''), (3, ''8'')] = PASS"
    using TestDD_test_verdicts [of "[(0, ''1''), (1, ''7''), (2, ''1''), (3, ''8'')]"]
    by auto
  have b: "TestDD_test [(0, ''8''), (1, ''2''), (2, ''1''), (3, ''7'')] = FAIL"
    using TestDD_test_verdicts [of "[(0, ''8''), (1, ''2''), (2, ''1''), (3, ''7'')]"]
    by simp
  from a b show ?thesis by simp
qed

section \<open>The oracles of the scripts\<close>

text \<open>
  A \<open>_test\<close> method talks to the operating system: it creates files, spawns a process,
  opens a socket, drives gdb. Each such call either returns a value, raises an exception,
  or never returns (a child that never exits, a peer that never answers). The answers of
  the outside world are parameters of the models, one per call; the control flow around
  them is the script's.
\<close>

datatype 'a outcome = Returns 'a | Raises exn | Blocks

text \<open>Sequencing: a statement runs only when the one before it has returned.\<close>

fun bind :: "'a outcome \<Rightarrow> ('a \<Rightarrow> 'b outcome) \<Rightarrow> 'b outcome" where
  "bind (Returns x) f = f x"
| "bind (Raises e) f = Raises e"
| "bind Blocks f = Blocks"

text \<open>
  \<open>try: body except Exception: handler\<close>. Every exception of \<open>exn\<close> is a subclass
  of \<open>Exception\<close>.
\<close>

fun try_except :: "'a outcome \<Rightarrow> (exn \<Rightarrow> 'a outcome) \<Rightarrow> 'a outcome" where
  "try_except (Raises e) handler = handler e"
| "try_except (Returns x) handler = Returns x"
| "try_except Blocks handler = Blocks"

text \<open>
  The value a Python call hands back: one of the three verdict constants, or \<open>None\<close>
  when control reaches the end of the body without a \<open>return\<close>.
\<close>

datatype pyval = Verdict verdict | PyNone

text \<open>\<open>sub in s\<close> on strings.\<close>

fun py_in :: "string \<Rightarrow> string \<Rightarrow> bool" where
  "py_in sub [] = (sub = [])"
| "py_in sub (c # cs) = (prefix sub (c # cs) \<or> py_in sub cs)"

text \<open>
  \<open>str.lower()\<close> on code points below 256: the capital letters A-Z, and 192-222
  except 215, move up by 32.
\<close>

definition py_lower_char :: "char \<Rightarrow> char" where
  "py_lower_char c =
     (let n = (of_char c :: nat)
      in if (65 \<le> n \<and> n \<le> 90) \<or> (192 \<le> n \<and> n \<le> 222 \<and> n \<noteq> 215)
         then char_of (n + 32) else c)"

definition py_lower :: "string \<Rightarrow> string" where
  "py_lower s = map py_lower_char s"

text \<open>
  The loop \<open>for (index, byte) in deltas: f.write(bytes([byte]))\<close>: \<open>bytes([byte])\<close>
  raises \<open>ValueError\<close> unless \<open>0 \<le> byte < 256\<close>; \<open>w\<close> is the outcome of one
  \<open>f.write\<close>.
\<close>

fun write_bytes :: "unit outcome \<Rightarrow> int list \<Rightarrow> unit outcome" where
  "write_bytes w [] = Returns ()"
| "write_bytes w (byte # rest) =
     (if 0 \<le> byte \<and> byte < 256 then bind w (\<lambda>_. write_bytes w rest)
      else Raises ValueError)"

subsection \<open>dd-return-code.py\<close>

text \<open>The answers of the operating system to the calls of \<open>MyDD._test\<close>.\<close>

record proc_env =
  mkstemp_outcome :: "string outcome"
  open_outcome :: "unit outcome"
  write_outcome :: "unit outcome"
  popen_outcome :: "string list \<Rightarrow> unit outcome"
  feed_stdin_outcome :: "unit outcome"
  wait_outcome :: "int outcome"
  unlink_outcome :: "unit outcome"

text \<open>
  \<open>MyDD._test\<close> of dd-return-code.py. \<open>mkstemp_outcome\<close> covers \<open>mkstemp\<close> and the
  \<open>close\<close> of its descriptor and gives the file name; \<open>feed_stdin_outcome\<close> covers
  the three statements of the streaming branch; \<open>wait_outcome\<close> is \<open>p.wait()\<close>, called
  without a timeout, and gives \<open>p.returncode\<close>. There is no \<open>try\<close> in the method.
\<close>

definition MyDD_test_return_code ::
  "proc_env \<Rightarrow> string \<Rightarrow> string list \<Rightarrow> bool \<Rightarrow> (int \<times> int) list \<Rightarrow> pyval outcome" where
  "MyDD_test_return_code env executable target_args streaming deltas =
     bind (mkstemp_outcome env) (\<lambda>input_filename.
       let args = [executable] @
             (if target_args \<noteq> []
              then map (\<lambda>x. if x \<noteq> ''@@'' then x else input_filename) target_args
              else [])
       in bind (open_outcome env) (\<lambda>_.
          bind (write_bytes (write_outcome env) (map snd deltas)) (\<lambda>_.
          bind (popen_outcome env args) (\<lambda>_.
          bind (if streaming then feed_stdin_outcome env else Returns ()) (\<lambda>_.
          bind (wait_outcome env) (\<lambda>returncode.
          bind (unlink_outcome env) (\<lambda>_.
            if returncode = 0 then Returns (Verdict PASS)
            else Returns (Verdict FAIL))))))))"

subsection \<open>dd-socket-example.py\<close>

text \<open>
  The answers of the outside world to the calls of \<open>MyDD._test\<close> and
  \<open>MyDD.target_crashed\<close>: creating a socket, \<open>connect\<close>, \<open>sendall\<close>, and the
  \<open>print\<close> inside each of the two \<open>except\<close> handlers, which writes to the standard
  output and can itself raise.
\<close>

record sock_env =
  socket_outcome :: "unit outcome"
  connect_outcome :: "unit outcome"
  sendall_outcome :: "unit outcome"
  print_outcome :: "unit outcome"
  probe_socket_outcome :: "unit outcome"
  probe_connect_outcome :: "unit outcome"
  probe_print_outcome :: "unit outcome"

text \<open>
  \<open>MyDD.target_crashed\<close>: the socket is created before the \<open>try\<close>; inside it,
  \<open>connect\<close> and \<open>close\<close> (\<open>probe_connect_outcome\<close>) give \<open>False\<close> when they
  return; when they raise, the handler prints the exception
  (\<open>probe_print_outcome\<close>) and returns \<open>True\<close>.
\<close>

definition target_crashed :: "sock_env \<Rightarrow> bool outcome" where
  "target_crashed env =
     bind (probe_socket_outcome env) (\<lambda>_.
       try_except (bind (probe_connect_outcome env) (\<lambda>_. Returns False))
         (\<lambda>e. bind (probe_print_outcome env) (\<lambda>_. Returns True)))"

text \<open>
  \<open>MyDD._test\<close> of dd-socket-example.py: the socket is created before the \<open>try\<close>;
  the handler prints the exception (\<open>print_outcome\<close>) and control then falls through
  to \<open>return self.UNRESOLVED\<close>; an exception raised by that \<open>print\<close> is raised
  inside the handler and leaves the method. \<open>sendall_outcome\<close> covers the encoding of
  the joined payloads and \<open>s.sendall\<close>.
\<close>

definition MyDD_test_socket :: "sock_env \<Rightarrow> (int \<times> string) list \<Rightarrow> pyval outcome" where
  "MyDD_test_socket env deltas =
     (let data = map snd deltas
      in bind (socket_outcome env) (\<lambda>_.
           try_except
             (bind (connect_outcome env) (\<lambda>_.
              bind (if data \<noteq> [] then sendall_outcome env else Returns ()) (\<lambda>_.
              bind (target_crashed env) (\<lambda>crashed.
                if crashed then Returns (Verdict FAIL) else Returns (Verdict PASS)))))
             (\<lambda>e. bind (print_outcome env) (\<lambda>_. Returns (Verdict UNRESOLVED)))))"

subsection \<open>The gdb-driven oracles\<close>

text \<open>
  The answers of gdb and of the operating system to the calls of the gdb-driven
  \<open>_test\<close> methods. \<open>gdb_start_outcome\<close> is the constructor \<open>Gdb(executable)\<close>,
  \<open>gdb_session\<close> the text gdb prints in reply to a command (used by
  \<open>set_breakpoint\<close>), \<open>gdb_run_outcome\<close> the response of \<open>g.run\<close>,
  \<open>gdb_eof_outcome\<close> the response of \<open>g.send_EOF()\<close>, \<open>probe_pc_outcome\<close> the two
  statements \<open>g._determine_pc()\<close> and \<open>g.info_registers([g.pc])[g.pc]\<close>.
\<close>

record gdb_env =
  tmp_outcome :: "string outcome"
  tmp_open_outcome :: "unit outcome"
  tmp_write_outcome :: "unit outcome"
  tmp_unlink_outcome :: "unit outcome"
  gdb_start_outcome :: "unit outcome"
  gdb_session :: "string \<Rightarrow> string"
  gdb_command_outcome :: "unit outcome"
  gdb_run_outcome :: "string outcome"
  gdb_input_outcome :: "unit outcome"
  gdb_eof_outcome :: "string outcome"
  probe_pc_outcome :: "unit outcome"
  gdb_quit_outcome :: "unit outcome"
  thread_start_outcome :: "unit outcome"
  thread_join_outcome :: "unit outcome"

text \<open>
  \<open>GdbDD._test\<close> of dd-ccd2cue.py. Each of the three exits runs \<open>g.quit()\<close> and
  \<open>t.join()\<close> before its \<open>return\<close>.
\<close>

definition GdbDD_test_ccd2cue :: "gdb_env \<Rightarrow> (int \<times> int) list \<Rightarrow> pyval outcome" where
  "GdbDD_test_ccd2cue env deltas =
     bind (tmp_outcome env) (\<lambda>input_filename.
     bind (tmp_open_outcome env) (\<lambda>_.
     bind (write_bytes (tmp_write_outcome env) (map snd deltas)) (\<lambda>_.
     bind (gdb_start_outcome env) (\<lambda>_.
     bind (thread_start_outcome env) (\<lambda>_.
     bind (gdb_run_outcome env) (\<lambda>response.
     bind (tmp_unlink_outcome env) (\<lambda>_.
       if py_in ''exited normally'' response \<or> py_in ''exited with code'' response
       then bind (gdb_quit_outcome env) (\<lambda>_.
            bind (thread_join_outcome env) (\<lambda>_. Returns (Verdict PASS)))
       else if py_in ''SIGABRT'' response
       then bind (gdb_quit_outcome env) (\<lambda>_.
            bind (thread_join_outcome env) (\<lambda>_. Returns (Verdict FAIL)))
       else bind (gdb_quit_outcome env) (\<lambda>_.
            bind (thread_join_outcome env) (\<lambda>_. Returns (Verdict UNRESOLVED))))))))))"

text \<open>\<open>Gdb.set_breakpoint\<close> as a step of a \<open>_test\<close> method.\<close>

definition raise_or_return ::
  "exn + (int \<times> string) \<Rightarrow> (int \<times> string) outcome" where
  "raise_or_return r = (case r of Inl e \<Rightarrow> Raises e | Inr p \<Rightarrow> Returns p)"

text \<open>
  \<open>GdbDD._test\<close> of dd-gdb-example.py. The script imports only \<open>DD\<close>: the name
  \<open>Gdb\<close> is not bound in it, and the call \<open>Gdb(self.executable)\<close> raises
  \<open>NameError\<close>. The parameter \<open>Gdb_bound\<close> says whether the name is bound; the rest of
  the body is modelled for the case that it is.
\<close>

definition GdbDD_test_gdb_example ::
  "gdb_env \<Rightarrow> bool \<Rightarrow> (string \<Rightarrow> int option) \<Rightarrow> string \<Rightarrow> (int \<times> string) list
     \<Rightarrow> pyval outcome" where
  "GdbDD_test_gdb_example env Gdb_bound py_int breakpoint deltas =
     (if \<not> Gdb_bound then Raises NameError
      else
        bind (gdb_start_outcome env) (\<lambda>_.
        bind (raise_or_return (set_breakpoint (gdb_session env) py_int breakpoint))
          (\<lambda>(breakpoint_number, addr).
        bind (gdb_run_outcome env) (\<lambda>_.
        bind (gdb_input_outcome env) (\<lambda>_.
        bind (gdb_eof_outcome env) (\<lambda>response.
          if py_in ''breakpoint'' (py_lower response) then Returns (Verdict FAIL)
          else if py_in ''exited'' (py_lower response) then Returns (Verdict PASS)
          else Returns (Verdict UNRESOLVED)))))))"

text \<open>
  \<open>GdbDD._test\<close> of dd-sqlite.py, which does not import \<open>Gdb\<close> either. The \<open>try\<close>
  around the two statements of \<open>probe_pc_outcome\<close> catches \<open>ValueError\<close> only.
\<close>

definition GdbDD_test_sqlite :: "gdb_env \<Rightarrow> bool \<Rightarrow> (int \<times> int) list \<Rightarrow> pyval outcome" where
  "GdbDD_test_sqlite env Gdb_bound deltas =
     bind (tmp_outcome env) (\<lambda>input_filename.
     bind (tmp_outcome env) (\<lambda>db_filename.
     bind (tmp_open_outcome env) (\<lambda>_.
     bind (write_bytes (tmp_write_outcome env) (map snd deltas)) (\<lambda>_.
       if \<not> Gdb_bound then Raises NameError
       else
         bind (gdb_start_outcome env) (\<lambda>_.
         bind (gdb_command_outcome env) (\<lambda>_.
         bind (thread_start_outcome env) (\<lambda>_.
         bind (gdb_run_outcome env) (\<lambda>response.
         bind (tmp_unlink_outcome env) (\<lambda>_.
         bind (tmp_unlink_outcome env) (\<lambda>_.
           if py_in ''exited normally'' response
           then bind (gdb_quit_outcome env) (\<lambda>_.
                bind (thread_join_outcome env) (\<lambda>_. Returns (Verdict PASS)))
           else if py_in ''exited with code'' response
           then bind (gdb_quit_outcome env) (\<lambda>_.
                bind (thread_join_outcome env) (\<lambda>_. Returns (Verdict PASS)))
           else
             bind (case probe_pc_outcome env of
                     Raises ValueError \<Rightarrow> Returns ()
                   | other \<Rightarrow> other) (\<lambda>_.
               if py_in ''SIGABRT'' response
               then bind (gdb_quit_outcome env) (\<lambda>_.
                    bind (thread_join_outcome env) (\<lambda>_. Returns (Verdict PASS)))
               else if py_in ''SIGSEGV'' response \<and> py_in ''a99410'' response
               then bind (gdb_quit_outcome env) (\<lambda>_.
                    bind (thread_join_outcome env) (\<lambda>_. Returns (Verdict FAIL)))
               else bind (gdb_quit_outcome env) (\<lambda>_.
                    bind (thread_join_outcome env) (\<lambda>_.
                      Returns (Verdict UNRESOLVED))))))))))))))"

subsection \<open>dd-sqlite2.py\<close>

text \<open>
  \<open>MyDD._test\<close> of dd-sqlite2.py: the target is spawned first, each byte is written to
  its standard input as \<open>chr(byte)\<close> (\<open>ValueError\<close> outside \<open>range(0x110000)\<close>), and
  return codes 0 and 1 both give \<open>PASS\<close>.
\<close>

fun write_chars :: "unit outcome \<Rightarrow> int list \<Rightarrow> unit outcome" where
  "write_chars w [] = Returns ()"
| "write_chars w (byte # rest) =
     (if 0 \<le> byte \<and> byte < 1114112 then bind w (\<lambda>_. write_chars w rest)
      else Raises ValueError)"

definition MyDD_test_sqlite2 :: "proc_env \<Rightarrow> string \<Rightarrow> (int \<times> int) list \<Rightarrow> pyval outcome" where
  "MyDD_test_sqlite2 env executable deltas =
     bind (popen_outcome env [executable]) (\<lambda>_.
     bind (write_chars (write_outcome env) (map snd deltas)) (\<lambda>_.
     bind (feed_stdin_outcome env) (\<lambda>_.
     bind (wait_outcome env) (\<lambda>returncode.
       if returncode = 0 then Returns (Verdict PASS)
       else if returncode = 1 then Returns (Verdict PASS)
       else Returns (Verdict FAIL)))))"

subsection \<open>Reasoning about sequenced calls\<close>

lemma bind_eq_Returns:
  "(bind m f = Returns r) = (\<exists>x. m = Returns x \<and> f x = Returns r)"
  by (cases m) auto

lemma bind_eq_Raises:
  "(bind m f = Raises e) = (m = Raises e \<or> (\<exists>x. m = Returns x \<and> f x = Raises e))"
  by (cases m) auto

lemma bind_eq_Blocks:
  "(bind m f = Blocks) = (m = Blocks \<or> (\<exists>x. m = Returns x \<and> f x = Blocks))"
  by (cases m) auto

text \<open>A call that, when it returns, returns one of the three verdicts.\<close>

definition returns_verdict :: "pyval outcome \<Rightarrow> bool" where
  "returns_verdict out =
     (\<forall>r. out = Returns r \<longrightarrow>
        r = Verdict PASS \<or> r = Verdict FAIL \<or> r = Verdict UNRESOLVED)"

lemma returns_verdict_Returns [simp]: "returns_verdict (Returns (Verdict v))"
  by (cases v) (simp_all add: returns_verdict_def)

lemma returns_verdict_Raises [simp]: "returns_verdict (Raises e)"
  by (simp add: returns_verdict_def)

lemma returns_verdict_Blocks [simp]: "returns_verdict Blocks"
  by (simp add: returns_verdict_def)

lemma returns_verdict_bind:
  "(\<And>x. returns_verdict (f x)) \<Longrightarrow> returns_verdict (bind m f)"
  by (cases m) simp_all

lemma returns_verdict_try:
  "returns_verdict body \<Longrightarrow> (\<And>e. returns_verdict (handler e))
   \<Longrightarrow> returns_verdict (try_except body handler)"
  by (cases body) simp_all

lemma returns_verdict_if:
  "returns_verdict a \<Longrightarrow> returns_verdict b \<Longrightarrow> returns_verdict (if c then a else b)"
  by simp

lemma rv_return_code:
  "returns_verdict (MyDD_test_return_code env executable target_args streaming deltas)"
  unfolding MyDD_test_return_code_def Let_def
  by (intro returns_verdict_bind returns_verdict_if returns_verdict_Returns)

lemma rv_sqlite2: "returns_verdict (MyDD_test_sqlite2 env executable deltas)"
  unfolding MyDD_test_sqlite2_def
  by (intro returns_verdict_bind returns_verdict_if returns_verdict_Returns)

lemma rv_socket: "returns_verdict (MyDD_test_socket env deltas)"
  unfolding MyDD_test_socket_def Let_def
  by (intro returns_verdict_bind returns_verdict_try returns_verdict_if
      returns_verdict_Returns)

lemma rv_ccd2cue: "returns_verdict (GdbDD_test_ccd2cue env deltas)"
  unfolding GdbDD_test_ccd2cue_def
  by (intro returns_verdict_bind returns_verdict_if returns_verdict_Returns)

lemma rv_gdb_example:
  "returns_verdict (GdbDD_test_gdb_example env Gdb_bound py_int breakpoint deltas)"
  unfolding GdbDD_test_gdb_example_def
  by (auto intro!: returns_verdict_bind split: prod.splits)

lemma rv_sqlite: "returns_verdict (GdbDD_test_sqlite env Gdb_bound deltas)"
  unfolding GdbDD_test_sqlite_def
  by (intro returns_verdict_bind returns_verdict_if returns_verdict_Returns
      returns_verdict_Raises)

subsection \<open>Concrete answers of the outside world\<close>

text \<open>An operating system on which every call succeeds and the target exits.\<close>

definition friendly_os :: "int \<Rightarrow> proc_env" where
  "friendly_os returncode =
     \<lparr>mkstemp_outcome = Returns ''crash-0001'', open_outcome = Returns (),
      write_outcome = Returns (), popen_outcome = (\<lambda>args. Returns ()),
      feed_stdin_outcome = Returns (), wait_outcome = Returns returncode,
      unlink_outcome = Returns ()\<rparr>"


text \<open>The target is spawned and never exits.\<close>

definition hanging_target :: proc_env where
  "hanging_target = (friendly_os 0)\<lparr>wait_outcome := Blocks\<rparr>"

text \<open>The peer refuses every connection.\<close>

definition refused_connection :: sock_env where
  "refused_connection =
     \<lparr>socket_outcome = Returns (), connect_outcome = Raises OSError,
      sendall_outcome = Returns (), print_outcome = Returns (),
      probe_socket_outcome = Returns (), probe_connect_outcome = Raises OSError,
      probe_print_outcome = Returns ()\<rparr>"

text \<open>A gdb session in which the target aborts.\<close>

definition aborting_gdb :: gdb_env where
  "aborting_gdb =
     \<lparr>tmp_outcome = Returns ''ccd2cue-crash-0001.ccd'', tmp_open_outcome = Returns (),
      tmp_write_outcome = Returns (), tmp_unlink_outcome = Returns (),
      gdb_start_outcome = Returns (),
      gdb_session = gdb_replies ''Breakpoint 1 at 0x40052a: file t.c, line 5.'',
      gdb_command_outcome = Returns (),
      gdb_run_outcome = Returns ''Program received signal SIGABRT, Aborted.'',
      gdb_input_outcome = Returns (),
      gdb_eof_outcome = Returns ''Program received signal SIGABRT, Aborted.'',
      probe_pc_outcome = Returns (), gdb_quit_outcome = Returns (),
      thread_start_outcome = Returns (), thread_join_outcome = Returns ()\<rparr>"

subsection \<open>The verdicts are a closed set\<close>

text \<open>
  C3: whenever a \<open>_test\<close> method of the scripts returns, the value returned is one
  of the three verdicts \<open>PASS\<close>, \<open>FAIL\<close>, \<open>UNRESOLVED\<close>: every path through the
  body that does not raise ends in a \<open>return\<close> of one of the three constants, none
  falls off the end. This holds for the three methods the claim cites (dd-ccd2cue.py,
  dd-socket-example.py, dd-gdb-example.py) and for those of dd-sqlite.py,
  dd-return-code.py and dd-sqlite2.py.
\<close>

theorem oracles_return_verdicts:
  "(\<forall>r. GdbDD_test_ccd2cue genv bytes = Returns r \<longrightarrow>
        r = Verdict PASS \<or> r = Verdict FAIL \<or> r = Verdict UNRESOLVED)
   \<and> (\<forall>r. MyDD_test_socket senv chars = Returns r \<longrightarrow>
        r = Verdict PASS \<or> r = Verdict FAIL \<or> r = Verdict UNRESOLVED)
   \<and> (\<forall>r. GdbDD_test_gdb_example genv Gdb_bound py_int breakpoint chars = Returns r \<longrightarrow>
        r = Verdict PASS \<or> r = Verdict FAIL \<or> r = Verdict UNRESOLVED)
   \<and> (\<forall>r. GdbDD_test_sqlite genv Gdb_bound bytes = Returns r \<longrightarrow>
        r = Verdict PASS \<or> r = Verdict FAIL \<or> r = Verdict UNRESOLVED)
   \<and> (\<forall>r. MyDD_test_return_code penv executable target_args streaming bytes = Returns r \<longrightarrow>
        r = Verdict PASS \<or> r = Verdict FAIL \<or> r = Verdict UNRESOLVED)
   \<and> (\<forall>r. MyDD_test_sqlite2 penv executable bytes = Returns r \<longrightarrow>
        r = Verdict PASS \<or> r = Verdict FAIL \<or> r = Verdict UNRESOLVED)"
  using rv_ccd2cue[of genv bytes] rv_socket[of senv chars]
    rv_gdb_example[of genv Gdb_bound py_int breakpoint chars]
    rv_sqlite[of genv Gdb_bound bytes]
    rv_return_code[of penv executable target_args streaming bytes]
    rv_sqlite2[of penv executable bytes]
  unfolding returns_verdict_def by blast

lemma ccd2cue_aborting:
  "GdbDD_test_ccd2cue aborting_gdb [(1, 67), (2, 68)] = Returns (Verdict FAIL)"
  by (simp add: GdbDD_test_ccd2cue_def aborting_gdb_def)

lemma socket_refused:
  "MyDD_test_socket refused_connection [(1, ''a'')] = Returns (Verdict UNRESOLVED)"
  by (simp add: MyDD_test_socket_def refused_connection_def)

lemma gdb_example_aborting:
  "GdbDD_test_gdb_example aborting_gdb True int_of_digits ''main'' [(1, ''a'')]
     = Returns (Verdict UNRESOLVED)"
  by (simp add: GdbDD_test_gdb_example_def aborting_gdb_def raise_or_return_def
      gdb_replies_def set_breakpoint_def send_command_def send_input_def py_strip_def
      py_isspace_def int_of_digits_def is_digit_def digit_val_def py_lower_def
      py_lower_char_def)

theorem oracles_return_verdicts_witness:
  "GdbDD_test_ccd2cue aborting_gdb [(1, 67), (2, 68)] = Returns (Verdict FAIL)
   \<and> MyDD_test_socket refused_connection [(1, ''a'')] = Returns (Verdict UNRESOLVED)
   \<and> GdbDD_test_gdb_example aborting_gdb True int_of_digits ''main'' [(1, ''a'')]
       = Returns (Verdict UNRESOLVED)
   \<and> (Verdict FAIL = Verdict PASS \<or> Verdict FAIL = Verdict FAIL
        \<or> Verdict FAIL = Verdict UNRESOLVED)"
  using oracles_return_verdicts
    [of aborting_gdb "[(1, 67), (2, 68)]" refused_connection "[(1, ''a'')]" True
        int_of_digits "''main''" "friendly_os 0" "''target''" "[]" False]
    ccd2cue_aborting socket_refused gdb_example_aborting
  by simp

subsection \<open>The return code decides the verdict\<close>

lemma bind_ReturnsE:
  "bind m f = Returns r \<Longrightarrow> (\<And>x. m = Returns x \<Longrightarrow> f x = Returns r \<Longrightarrow> P) \<Longrightarrow> P"
  by (cases m) auto

lemma return_code_returns:
  "MyDD_test_return_code env executable target_args streaming deltas = Returns v \<Longrightarrow>
     (\<exists>r. wait_outcome env = Returns r
          \<and> (v = Verdict PASS) = (r = 0) \<and> (v = Verdict FAIL) = (r \<noteq> 0))"
  unfolding MyDD_test_return_code_def Let_def
  apply (erule bind_ReturnsE)+
  apply (auto split: if_splits)
  done

lemma write_bytes_ok:
  "w = Returns () \<Longrightarrow> \<forall>b\<in>set bs. 0 \<le> b \<and> b < 256 \<Longrightarrow> write_bytes w bs = Returns ()"
  by (induction bs) auto

lemma return_code_runs:
  "mkstemp_outcome env = Returns name \<Longrightarrow> open_outcome env = Returns ()
   \<Longrightarrow> write_outcome env = Returns () \<Longrightarrow> \<forall>b\<in>set (map snd deltas). 0 \<le> b \<and> b < 256
   \<Longrightarrow> \<forall>args. popen_outcome env args = Returns ()
   \<Longrightarrow> (streaming \<Longrightarrow> feed_stdin_outcome env = Returns ())
   \<Longrightarrow> MyDD_test_return_code env executable target_args streaming deltas
         = bind (wait_outcome env) (\<lambda>returncode.
             bind (unlink_outcome env) (\<lambda>_.
               if returncode = 0 then Returns (Verdict PASS)
               else Returns (Verdict FAIL)))"
  using write_bytes_ok[of "write_outcome env" "map snd deltas"]
  by (simp add: MyDD_test_return_code_def Let_def)

text \<open>
  C8: whenever \<open>MyDD._test\<close> of dd-return-code.py returns, the target has exited with
  a return code \<open>r\<close>, and the value returned is \<open>PASS\<close> if and only if \<open>r = 0\<close> and
  \<open>FAIL\<close> if and only if \<open>r \<noteq> 0\<close>; it never returns \<open>UNRESOLVED\<close>. When the
  calls to the operating system succeed, all bytes are in range and the target exits
  with \<open>r\<close>, the method does return.
\<close>

theorem MyDD_test_return_code_verdict:
  "(\<forall>v. MyDD_test_return_code env executable target_args streaming deltas = Returns v \<longrightarrow>
        (\<exists>r. wait_outcome env = Returns r
             \<and> (v = Verdict PASS) = (r = 0) \<and> (v = Verdict FAIL) = (r \<noteq> 0)))
   \<and> MyDD_test_return_code env executable target_args streaming deltas
        \<noteq> Returns (Verdict UNRESOLVED)
   \<and> ((\<exists>name. mkstemp_outcome env = Returns name) \<and> open_outcome env = Returns ()
        \<and> write_outcome env = Returns () \<and> (\<forall>b\<in>set (map snd deltas). 0 \<le> b \<and> b < 256)
        \<and> (\<forall>args. popen_outcome env args = Returns ())
        \<and> feed_stdin_outcome env = Returns () \<and> unlink_outcome env = Returns ()
        \<and> wait_outcome env = Returns r \<longrightarrow>
       MyDD_test_return_code env executable target_args streaming deltas
         = Returns (Verdict (if r = 0 then PASS else FAIL)))"
proof (intro conjI allI impI)
  fix v
  assume "MyDD_test_return_code env executable target_args streaming deltas = Returns v"
  then show "\<exists>r. wait_outcome env = Returns r
             \<and> (v = Verdict PASS) = (r = 0) \<and> (v = Verdict FAIL) = (r \<noteq> 0)"
    by (rule return_code_returns)
next
  show "MyDD_test_return_code env executable target_args streaming deltas
        \<noteq> Returns (Verdict UNRESOLVED)"
  proof
    assume "MyDD_test_return_code env executable target_args streaming deltas
              = Returns (Verdict UNRESOLVED)"
    from return_code_returns[OF this] show False by simp
  qed
next
  assume h: "(\<exists>name. mkstemp_outcome env = Returns name) \<and> open_outcome env = Returns ()
        \<and> write_outcome env = Returns () \<and> (\<forall>b\<in>set (map snd deltas). 0 \<le> b \<and> b < 256)
        \<and> (\<forall>args. popen_outcome env args = Returns ())
        \<and> feed_stdin_outcome env = Returns () \<and> unlink_outcome env = Returns ()
        \<and> wait_outcome env = Returns r"
  then obtain name where n: "mkstemp_outcome env = Returns name" by blast
  from h have "MyDD_test_return_code env executable target_args streaming deltas
         = bind (wait_outcome env) (\<lambda>returncode.
             bind (unlink_outcome env) (\<lambda>_.
               if returncode = 0 then Returns (Verdict PASS)
               else Returns (Verdict FAIL)))"
    by (intro return_code_runs[OF n]) simp_all
  with h show "MyDD_test_return_code env executable target_args streaming deltas
         = Returns (Verdict (if r = 0 then PASS else FAIL))"
    by simp
qed

theorem MyDD_test_return_code_verdict_witness:
  "MyDD_test_return_code (friendly_os 0) ''target'' [''@@''] False [(1, 65), (2, 66)]
     = Returns (Verdict PASS)
   \<and> MyDD_test_return_code (friendly_os (- 11)) ''target'' [''@@''] True [(1, 65), (2, 66)]
     = Returns (Verdict FAIL)"
proof -
  have "MyDD_test_return_code (friendly_os 0) ''target'' [''@@''] False
          [(1, 65), (2, 66)] = Returns (Verdict (if (0 :: int) = 0 then PASS else FAIL))"
    by (rule MyDD_test_return_code_verdict
              [of "friendly_os 0" "''target''" "[''@@'']" False "[(1, 65), (2, 66)]" 0,
               THEN conjunct2, THEN conjunct2, THEN mp])
       (simp add: friendly_os_def)
  then have a: "MyDD_test_return_code (friendly_os 0) ''target'' [''@@''] False
             [(1, 65), (2, 66)] = Returns (Verdict PASS)"
    by simp
  have "MyDD_test_return_code (friendly_os (- 11)) ''target'' [''@@''] True
          [(1, 65), (2, 66)] = Returns (Verdict (if (- 11 :: int) = 0 then PASS else FAIL))"
    by (rule MyDD_test_return_code_verdict
              [of "friendly_os (- 11)" "''target''" "[''@@'']" True "[(1, 65), (2, 66)]"
                  "- 11",
               THEN conjunct2, THEN conjunct2, THEN mp])
       (simp add: friendly_os_def)
  then have b: "MyDD_test_return_code (friendly_os (- 11)) ''target'' [''@@''] True
             [(1, 65), (2, 66)] = Returns (Verdict FAIL)"
    by simp
  from a b show ?thesis by simp
qed

subsection \<open>Failures at the operating-system boundary\<close>








subsection \<open>Waiting for the target\<close>

lemma return_code_wait_blocks:
  "mkstemp_outcome env = Returns name \<Longrightarrow> open_outcome env = Returns ()
   \<Longrightarrow> write_bytes (write_outcome env) (map snd deltas) = Returns ()
   \<Longrightarrow> \<forall>args. popen_outcome env args = Returns ()
   \<Longrightarrow> feed_stdin_outcome env = Returns () \<Longrightarrow> wait_outcome env = Blocks
   \<Longrightarrow> MyDD_test_return_code env executable target_args streaming deltas = Blocks"
  by (simp add: MyDD_test_return_code_def Let_def)

text \<open>
  C5, as stated, fails for dd-return-code.py: \<open>MyDD._test\<close> calls \<open>p.wait()\<close> with
  no timeout, so on a target that never exits the call never returns; no verdict is
  produced for the candidate.
\<close>

theorem return_code_blocks_on_hanging_target:
  "wait_outcome hanging_target = Blocks
   \<and> MyDD_test_return_code hanging_target ''target'' [''@@''] False [(1, 65), (2, 66)]
       = Blocks"
  by (simp add: MyDD_test_return_code_def hanging_target_def friendly_os_def)

text \<open>
  C5, amended: \<open>MyDD._test\<close> of dd-return-code.py is not bounded by a timeout. It
  returns only when \<open>p.wait()\<close>, which is called without a timeout, has returned; when
  the calls before it succeed and the target never exits, \<open>_test\<close> never returns; and
  it never returns \<open>UNRESOLVED\<close>.
\<close>

theorem return_code_wait_is_unbounded:
  "(\<forall>v. MyDD_test_return_code penv executable target_args streaming bytes = Returns v \<longrightarrow>
        (\<exists>r. wait_outcome penv = Returns r))
   \<and> ((\<exists>name. mkstemp_outcome penv = Returns name) \<and> open_outcome penv = Returns ()
        \<and> write_bytes (write_outcome penv) (map snd bytes) = Returns ()
        \<and> (\<forall>args. popen_outcome penv args = Returns ())
        \<and> feed_stdin_outcome penv = Returns () \<and> wait_outcome penv = Blocks \<longrightarrow>
       MyDD_test_return_code penv executable target_args streaming bytes = Blocks)
   \<and> MyDD_test_return_code penv executable target_args streaming bytes
        \<noteq> Returns (Verdict UNRESOLVED)"
proof (intro conjI allI impI)
  fix v
  assume "MyDD_test_return_code penv executable target_args streaming bytes = Returns v"
  from return_code_returns[OF this] show "\<exists>r. wait_outcome penv = Returns r"
    by blast
next
  assume h: "(\<exists>name. mkstemp_outcome penv = Returns name) \<and> open_outcome penv = Returns ()
        \<and> write_bytes (write_outcome penv) (map snd bytes) = Returns ()
        \<and> (\<forall>args. popen_outcome penv args = Returns ())
        \<and> feed_stdin_outcome penv = Returns () \<and> wait_outcome penv = Blocks"
  then obtain name where n: "mkstemp_outcome penv = Returns name"
    by blast
  from h have "open_outcome penv = Returns ()"
    "write_bytes (write_outcome penv) (map snd bytes) = Returns ()"
    "\<forall>args. popen_outcome penv args = Returns ()"
    "feed_stdin_outcome penv = Returns ()" "wait_outcome penv = Blocks"
    by simp_all
  with n show "MyDD_test_return_code penv executable target_args streaming bytes = Blocks"
    by (rule return_code_wait_blocks)
next
  show "MyDD_test_return_code penv executable target_args streaming bytes
          \<noteq> Returns (Verdict UNRESOLVED)"
  proof
    assume "MyDD_test_return_code penv executable target_args streaming bytes
              = Returns (Verdict UNRESOLVED)"
    from return_code_returns[OF this] show False
      by simp
  qed
qed

theorem return_code_wait_is_unbounded_witness:
  "wait_outcome hanging_target = Blocks
   \<and> MyDD_test_return_code hanging_target ''target'' [] True [(1, 65)] = Blocks"
proof -
  have p: "(\<exists>name. mkstemp_outcome hanging_target = Returns name)
        \<and> open_outcome hanging_target = Returns ()
        \<and> write_bytes (write_outcome hanging_target) (map snd [(1 :: int, 65)]) = Returns ()
        \<and> (\<forall>args. popen_outcome hanging_target args = Returns ())
        \<and> feed_stdin_outcome hanging_target = Returns ()
        \<and> wait_outcome hanging_target = Blocks"
    by (simp add: hanging_target_def friendly_os_def)
  have a: "MyDD_test_return_code hanging_target ''target'' [] True [(1, 65)] = Blocks"
    using return_code_wait_is_unbounded
      [of hanging_target "''target''" "[]" True "[(1, 65)]",
       THEN conjunct2, THEN conjunct1, THEN mp, OF p] .
  from p a show ?thesis
    by simp
qed

section \<open>The outcome cache and the configurations of a run\<close>

text \<open>
  The configurations of the scripts are lists of (index, payload) pairs. The run of
  \<open>ddmin\<close> below threads a state through the search of section 4.3: the
  \<open>cache_outcomes\<close> option, the outcome cache (a map from the identity of a
  configuration, its set of indices, to a verdict) and the list of the configurations
  handed to the oracle, in the order of the calls.
\<close>

record 'a dd_state =
  cache_outcomes :: bool
  outcomes :: "int set \<Rightarrow> verdict option"
  tested :: "(int \<times> 'a) list list"

text \<open>
  Modelled from the spec: the operations \<open>lookup\<close> and \<open>record\<close> of the outcome cache,
  section 4.2 (module \<open>DD.py\<close> is missing). Two configurations with the same set of
  indices resolve to the same entry. When caching is disabled, \<open>lookup\<close> always misses
  and \<open>record\<close> is a no-op.
\<close>

definition lookup :: "'a dd_state \<Rightarrow> (int \<times> 'a) list \<Rightarrow> verdict option" where
  "lookup s c = (if cache_outcomes s then outcomes s (set (map fst c)) else None)"

definition record_outcome :: "'a dd_state \<Rightarrow> (int \<times> 'a) list \<Rightarrow> verdict \<Rightarrow> 'a dd_state" where
  "record_outcome s c v =
     (if cache_outcomes s then s\<lparr>outcomes := (outcomes s)(set (map fst c) \<mapsto> v)\<rparr> else s)"

text \<open>
  Modelled from the spec: one test of a candidate, section 4.2 (module \<open>DD.py\<close> is
  missing). A hit avoids the oracle; a miss results in exactly one oracle invocation,
  whose verdict is recorded.
\<close>

definition test_cached ::
  "((int \<times> 'a) list \<Rightarrow> verdict) \<Rightarrow> 'a dd_state \<Rightarrow> (int \<times> 'a) list
     \<Rightarrow> verdict \<times> 'a dd_state" where
  "test_cached test s c =
     (case lookup s c of
        Some v \<Rightarrow> (v, s)
      | None \<Rightarrow> (test c, record_outcome (s\<lparr>tested := tested s @ [c]\<rparr>) c (test c)))"

text \<open>
  Modelled from the spec: the scan of steps 2 and 3 of section 4.3 (module \<open>DD.py\<close> is
  missing): the candidates are tested left to right and the first \<open>FAIL\<close> wins; the
  candidates after it are not tested.
\<close>

fun find_fail ::
  "((int \<times> 'a) list \<Rightarrow> verdict) \<Rightarrow> 'a dd_state \<Rightarrow> (int \<times> 'a) list list
     \<Rightarrow> (int \<times> 'a) list option \<times> 'a dd_state" where
  "find_fail test s [] = (None, s)"
| "find_fail test s (d # ds) =
     (case test_cached test s d of
        (v, s') \<Rightarrow> if v = FAIL then (Some d, s') else find_fail test s' ds)"

lemma find_fail_Some_mem: "find_fail test s ds = (Some d, s') \<Longrightarrow> d \<in> set ds"
  by (induction ds arbitrary: s) (auto split: prod.splits if_splits)

text \<open>
  Modelled from the spec: the state machine of section 4.3 with every test going
  through the outcome cache (module \<open>DD.py\<close> is missing). The control flow is that of
  \<open>ddmin_loop\<close>.
\<close>

function ddmin_loop_cached ::
  "((int \<times> 'a) list \<Rightarrow> verdict) \<Rightarrow> 'a dd_state \<Rightarrow> (int \<times> 'a) list \<Rightarrow> nat
     \<Rightarrow> (int \<times> 'a) list \<times> 'a dd_state" where
  "ddmin_loop_cached test s c n =
     (if n < 2 \<or> length c < n then (c, s)
      else (case find_fail test s (partition_config c n) of
              (Some d, s1) \<Rightarrow> ddmin_loop_cached test s1 d 2
            | (None, s1) \<Rightarrow>
                (case find_fail test s1 (complements (partition_config c n)) of
                   (Some d, s2) \<Rightarrow> ddmin_loop_cached test s2 d (max (n - 1) 2)
                 | (None, s2) \<Rightarrow>
                     if n < length c
                     then ddmin_loop_cached test s2 c (min (2 * n) (length c))
                     else (c, s2))))"
  by pat_completeness auto
termination
proof (relation "measures [\<lambda>(t, s, c, n). length c, \<lambda>(t, s, c, n). length c - n]",
    goal_cases)
  case 1
  then show ?case by simp
next
  case (2 test s c n x y xa ya)
  then show ?case by auto
next
  case (3 test s c n x y xa ya d)
  then have "find_fail test y (complements (partition_config c n)) = (Some d, ya)"
    by simp
  then have "d \<in> set (complements (partition_config c n))"
    by (rule find_fail_Some_mem)
  with 3 complement_props(1)[of n c d] show ?case by simp
next
  case (4 test s c n x y d)
  then have "find_fail test s (partition_config c n) = (Some d, y)"
    by simp
  then have "d \<in> set (partition_config c n)"
    by (rule find_fail_Some_mem)
  with 4 piece_props(1)[of n c d] show ?case by simp
qed

declare ddmin_loop_cached.simps [simp del]

text \<open>
  Modelled from the spec: the entry point \<open>ddmin\<close> with its outcome cache (module
  \<open>DD.py\<close> is missing). A run owns its cache, which starts empty. The universe is
  tested first (section 7), then the search starts at granularity 2.
\<close>

definition initial_state :: "bool \<Rightarrow> 'a dd_state" where
  "initial_state enabled = \<lparr>cache_outcomes = enabled, outcomes = Map.empty, tested = []\<rparr>"

definition ddmin_cached ::
  "bool \<Rightarrow> ((int \<times> 'a) list \<Rightarrow> verdict) \<Rightarrow> (int \<times> 'a) list
     \<Rightarrow> (dd_error + (int \<times> 'a) list) \<times> 'a dd_state" where
  "ddmin_cached enabled test universe =
     (case test_cached test (initial_state enabled) universe of
        (v, s) \<Rightarrow>
          if v \<noteq> FAIL then (Inl PreconditionViolation, s)
          else (case ddmin_loop_cached test s universe 2 of (m, s') \<Rightarrow> (Inr m, s')))"

subsection \<open>The invariant of a run\<close>

text \<open>A subsequence of a list without duplicates is determined by its set of elements.\<close>

lemma subseq_filter_distinct:
  "subseq xs zs \<Longrightarrow> distinct zs \<Longrightarrow> xs = filter (\<lambda>x. x \<in> set xs) zs"
proof (induction rule: list_emb.induct)
  case (list_emb_Nil ys)
  then show ?case by simp
next
  case (list_emb_Cons xs ys y)
  then have "y \<notin> set xs"
    by (auto dest: list_emb_set)
  with list_emb_Cons show ?case by simp
next
  case (list_emb_Cons2 x y xs ys)
  then have xy: "x = y" and ny: "y \<notin> set ys" and ih: "xs = filter (\<lambda>x. x \<in> set xs) ys"
    by simp_all
  have "filter (\<lambda>z. z \<in> set (x # xs)) ys = filter (\<lambda>z. z \<in> set xs) ys"
    using xy ny by (intro filter_cong) auto
  with xy ih show ?case by simp
qed

lemma subseq_distinct_set_eq:
  assumes "subseq xs zs" "subseq ys zs" "distinct zs" "set xs = set ys"
  shows "xs = ys"
proof -
  have "xs = filter (\<lambda>x. x \<in> set xs) zs"
    using assms(1,3) by (rule subseq_filter_distinct)
  also have "\<dots> = filter (\<lambda>x. x \<in> set ys) zs"
    using assms(4) by simp
  also have "\<dots> = ys"
    using subseq_filter_distinct[OF assms(2,3)] by simp
  finally show ?thesis .
qed

text \<open>
  Within one universe without duplicate indices, the set of indices identifies the
  configuration.
\<close>

lemma config_identity:
  assumes "distinct (map fst universe)" "subseq c universe" "subseq c' universe"
    "set (map fst c) = set (map fst c')"
  shows "c = c'"
proof -
  have "map fst c = map fst c'"
    using subseq_map[OF assms(2), of fst] subseq_map[OF assms(3), of fst] assms(1,4)
    by (rule subseq_distinct_set_eq)
  moreover have "inj_on fst (set universe)"
    using assms(1) by (simp add: distinct_map)
  then have "inj_on fst (set c \<union> set c')"
    using assms(2,3) by (auto dest: list_emb_set intro: inj_on_subset)
  ultimately show ?thesis
    by (rule map_inj_on)
qed

lemma subseq_sorted_wrt: "subseq xs ys \<Longrightarrow> sorted_wrt R ys \<Longrightarrow> sorted_wrt R xs"
proof (induction rule: list_emb.induct)
  case (list_emb_Nil ys)
  then show ?case by simp
next
  case (list_emb_Cons xs ys y)
  then show ?case by simp
next
  case (list_emb_Cons2 x y xs ys)
  then show ?case by (auto dest: list_emb_set)
qed

text \<open>
  The invariant: every entry of the cache is the verdict of the oracle on the
  configuration of the universe it identifies, and every configuration handed to the
  oracle is a subsequence of the universe.
\<close>

definition run_inv ::
  "((int \<times> 'a) list \<Rightarrow> verdict) \<Rightarrow> (int \<times> 'a) list \<Rightarrow> 'a dd_state \<Rightarrow> bool" where
  "run_inv test universe s =
     ((\<forall>c v. subseq c universe \<longrightarrow> outcomes s (set (map fst c)) = Some v \<longrightarrow> test c = v)
      \<and> (\<forall>c\<in>set (tested s). subseq c universe))"

lemma run_inv_initial: "run_inv test universe (initial_state enabled)"
  by (simp add: run_inv_def initial_state_def)

lemma test_cached_run:
  assumes "distinct (map fst universe)" "run_inv test universe s" "subseq c universe"
  shows "fst (test_cached test s c) = test c"
    and "run_inv test universe (snd (test_cached test s c))"
    and "cache_outcomes (snd (test_cached test s c)) = cache_outcomes s"
proof -
  show "fst (test_cached test s c) = test c"
    using assms(2,3)
    by (auto simp: test_cached_def lookup_def run_inv_def split: option.splits if_splits)
  show "cache_outcomes (snd (test_cached test s c)) = cache_outcomes s"
    by (simp add: test_cached_def record_outcome_def split: option.splits)
  show "run_inv test universe (snd (test_cached test s c))"
  proof (cases "lookup s c")
    case (Some v)
    then show ?thesis
      using assms(2) by (simp add: test_cached_def)
  next
    case None
    have "c' = c" if "subseq c' universe" "set (map fst c') = set (map fst c)" for c'
      using assms(1) that(1) assms(3) that(2) by (rule config_identity)
    then show ?thesis
      using None assms(2,3)
      by (auto simp: test_cached_def record_outcome_def run_inv_def)
  qed
qed

lemma find_fail_run:
  "distinct (map fst universe) \<Longrightarrow> run_inv test universe s
   \<Longrightarrow> \<forall>d\<in>set ds. subseq d universe
   \<Longrightarrow> fst (find_fail test s ds) = find (\<lambda>d. test d = FAIL) ds
       \<and> run_inv test universe (snd (find_fail test s ds))
       \<and> cache_outcomes (snd (find_fail test s ds)) = cache_outcomes s"
proof (induction ds arbitrary: s)
  case Nil
  then show ?case by simp
next
  case (Cons d ds)
  obtain v s' where t: "test_cached test s d = (v, s')"
    by (cases "test_cached test s d")
  from Cons.prems have sub: "subseq d universe"
    by simp
  from test_cached_run[OF Cons.prems(1,2) sub] t
  have v: "v = test d" and inv: "run_inv test universe s'"
    and en: "cache_outcomes s' = cache_outcomes s"
    by simp_all
  show ?case
  proof (cases "test d = FAIL")
    case True
    with t v inv en show ?thesis by simp
  next
    case False
    from Cons.prems have "\<forall>d\<in>set ds. subseq d universe"
      by simp
    from Cons.IH[OF Cons.prems(1) inv this] False t v en show ?thesis
      by simp
  qed
qed

lemma ddmin_loop_cached_run:
  "distinct (map fst universe) \<Longrightarrow> subseq c universe \<Longrightarrow> run_inv test universe s
   \<Longrightarrow> fst (ddmin_loop_cached test s c n) = ddmin_loop test c n
       \<and> run_inv test universe (snd (ddmin_loop_cached test s c n))"
proof (induction test c n arbitrary: s rule: ddmin_loop.induct)
  case (1 test c n)
  show ?case
  proof (cases "n < 2 \<or> length c < n")
    case True
    then show ?thesis
      using "1.prems"(3) by (simp add: ddmin_loop.simps ddmin_loop_cached.simps)
  next
    case guard: False
    then have n2: "2 \<le> n" and nc: "n \<le> length c"
      by simp_all
    let ?ps = "partition_config c n"
    obtain x s1 where f1: "find_fail test s ?ps = (x, s1)"
      by (cases "find_fail test s ?ps")
    have sub1: "\<forall>d\<in>set ?ps. subseq d universe"
      using piece_props(2)[OF n2 nc] "1.prems"(2) by (blast intro: subseq_order.trans)
    from find_fail_run[OF "1.prems"(1,3) sub1] f1
    have x: "x = find (\<lambda>d. test d = FAIL) ?ps" and inv1: "run_inv test universe s1"
      by simp_all
    show ?thesis
    proof (cases x)
      case (Some d)
      with x have fd: "find (\<lambda>d. test d = FAIL) ?ps = Some d"
        by simp
      then have "d \<in> set ?ps"
        by (auto simp: find_Some_iff)
      with sub1 have sd: "subseq d universe"
        by blast
      from "1.IH"(3)[OF guard fd "1.prems"(1) sd inv1] guard f1 Some fd show ?thesis
        by (simp add: ddmin_loop.simps[of test c n] ddmin_loop_cached.simps[of test s c n])
    next
      case None
      with x have fn: "find (\<lambda>d. test d = FAIL) ?ps = None"
        by simp
      let ?cs = "complements ?ps"
      obtain xa s2 where f2: "find_fail test s1 ?cs = (xa, s2)"
        by (cases "find_fail test s1 ?cs")
      have sub2: "\<forall>d\<in>set ?cs. subseq d universe"
        using complement_props(2)[OF n2 nc] "1.prems"(2) by (blast intro: subseq_order.trans)
      from find_fail_run[OF "1.prems"(1) inv1 sub2] f2
      have xa: "xa = find (\<lambda>d. test d = FAIL) ?cs" and inv2: "run_inv test universe s2"
        by simp_all
      show ?thesis
      proof (cases xa)
        case (Some d)
        with xa have fd: "find (\<lambda>d. test d = FAIL) ?cs = Some d"
          by simp
        then have "d \<in> set ?cs"
          by (auto simp: find_Some_iff)
        with sub2 have sd: "subseq d universe"
          by blast
        from "1.IH"(2)[OF guard fn fd "1.prems"(1) sd inv2] guard f1 f2 None Some fn fd
        show ?thesis
          by (simp add: ddmin_loop.simps[of test c n] ddmin_loop_cached.simps[of test s c n])
      next
        case None2: None
        with xa have fn2: "find (\<lambda>d. test d = FAIL) ?cs = None"
          by simp
        show ?thesis
        proof (cases "n < length c")
          case True
          from "1.IH"(1)[OF guard fn fn2 True "1.prems"(1,2) inv2] guard f1 f2 None None2
            fn fn2 True
          show ?thesis
            by (simp add: ddmin_loop.simps[of test c n]
                ddmin_loop_cached.simps[of test s c n])
        next
          case False
          with guard f1 f2 None None2 fn fn2 inv2 show ?thesis
            by (simp add: ddmin_loop.simps[of test c n]
                ddmin_loop_cached.simps[of test s c n])
        qed
      qed
    qed
  qed
qed

text \<open>The run with its cache computes what the search of section 4.3 computes.\<close>

lemma ddmin_cached_run:
  assumes "distinct (map fst universe)"
  shows "fst (ddmin_cached enabled test universe) = ddmin test universe"
    and "run_inv test universe (snd (ddmin_cached enabled test universe))"
proof -
  obtain v s where t: "test_cached test (initial_state enabled) universe = (v, s)"
    by (cases "test_cached test (initial_state enabled) universe")
  from test_cached_run[OF assms run_inv_initial subseq_order.refl, of test enabled] t
  have v: "v = test universe" and inv: "run_inv test universe s"
    by simp_all
  obtain m s' where l: "ddmin_loop_cached test s universe 2 = (m, s')"
    by (cases "ddmin_loop_cached test s universe 2")
  from ddmin_loop_cached_run[OF assms subseq_order.refl inv, of 2] l
  have m: "m = ddmin_loop test universe 2" and inv': "run_inv test universe s'"
    by simp_all
  show "fst (ddmin_cached enabled test universe) = ddmin test universe"
    using t v l m by (simp add: ddmin_cached_def ddmin_def)
  show "run_inv test universe (snd (ddmin_cached enabled test universe))"
    using t v l inv inv' by (simp add: ddmin_cached_def)
qed

subsection \<open>The oracle calls with and without the cache\<close>

text \<open>
  Two runs side by side, one with the cache and one without: the run without the cache
  hands every candidate to the oracle, the run with the cache only those that miss. The
  calls of the first are a subsequence of the calls of the second.
\<close>

lemma test_cached_disabled:
  "\<not> cache_outcomes s \<Longrightarrow> test_cached test s c = (test c, s\<lparr>tested := tested s @ [c]\<rparr>)"
  by (simp add: test_cached_def lookup_def record_outcome_def)

lemma tested_test_cached:
  "tested (snd (test_cached test s c)) = tested s
   \<or> tested (snd (test_cached test s c)) = tested s @ [c]"
  by (simp add: test_cached_def record_outcome_def split: option.splits)

lemma test_cached_sim:
  assumes "\<not> cache_outcomes s'" "subseq (tested s) (tested s')"
  shows "subseq (tested (snd (test_cached test s c))) (tested (snd (test_cached test s' c)))"
proof -
  have t': "tested (snd (test_cached test s' c)) = tested s' @ [c]"
    using assms(1) by (simp add: test_cached_disabled)
  from tested_test_cached[of test s c] show ?thesis
  proof
    assume "tested (snd (test_cached test s c)) = tested s"
    with t' assms(2) show ?thesis
      by (simp add: list_emb_prefix)
  next
    assume "tested (snd (test_cached test s c)) = tested s @ [c]"
    with t' assms(2) show ?thesis
      by (simp add: list_emb_append_mono)
  qed
qed

lemma find_fail_sim:
  "distinct (map fst universe) \<Longrightarrow> run_inv test universe s \<Longrightarrow> run_inv test universe s'
   \<Longrightarrow> \<not> cache_outcomes s' \<Longrightarrow> subseq (tested s) (tested s')
   \<Longrightarrow> \<forall>d\<in>set ds. subseq d universe
   \<Longrightarrow> subseq (tested (snd (find_fail test s ds))) (tested (snd (find_fail test s' ds)))"
proof (induction ds arbitrary: s s')
  case Nil
  then show ?case by simp
next
  case (Cons d ds)
  obtain v s1 where t: "test_cached test s d = (v, s1)"
    by (cases "test_cached test s d")
  obtain v' s1' where t': "test_cached test s' d = (v', s1')"
    by (cases "test_cached test s' d")
  from Cons.prems have sub: "subseq d universe"
    by simp
  from test_cached_run[OF Cons.prems(1,2) sub] t
  have v: "v = test d" and inv: "run_inv test universe s1"
    by simp_all
  from test_cached_run[OF Cons.prems(1,3) sub] t' Cons.prems(4)
  have v': "v' = test d" and inv': "run_inv test universe s1'"
    and off: "\<not> cache_outcomes s1'"
    by simp_all
  from test_cached_sim[OF Cons.prems(4,5), of test d] t t'
  have sim: "subseq (tested s1) (tested s1')"
    by simp
  show ?case
  proof (cases "test d = FAIL")
    case True
    with t t' v v' sim show ?thesis by simp
  next
    case False
    from Cons.prems have "\<forall>d\<in>set ds. subseq d universe"
      by simp
    from Cons.IH[OF Cons.prems(1) inv inv' off sim this] False t t' v v' show ?thesis
      by simp
  qed
qed

lemma find_fail_pair:
  assumes "distinct (map fst universe)" "run_inv test universe s" "run_inv test universe s'"
    "\<not> cache_outcomes s'" "subseq (tested s) (tested s')" "\<forall>d\<in>set ds. subseq d universe"
  obtains s1 s1' where
    "find_fail test s ds = (find (\<lambda>d. test d = FAIL) ds, s1)"
    "find_fail test s' ds = (find (\<lambda>d. test d = FAIL) ds, s1')"
    "run_inv test universe s1" "run_inv test universe s1'"
    "\<not> cache_outcomes s1'" "subseq (tested s1) (tested s1')"
proof -
  obtain x s1 where f: "find_fail test s ds = (x, s1)"
    by (cases "find_fail test s ds")
  obtain x' s1' where f': "find_fail test s' ds = (x', s1')"
    by (cases "find_fail test s' ds")
  from find_fail_run[OF assms(1,2,6)] f
  have a: "x = find (\<lambda>d. test d = FAIL) ds" "run_inv test universe s1"
    by simp_all
  from find_fail_run[OF assms(1,3,6)] f' assms(4)
  have b: "x' = find (\<lambda>d. test d = FAIL) ds" "run_inv test universe s1'"
    "\<not> cache_outcomes s1'"
    by simp_all
  from find_fail_sim[OF assms] f f' have "subseq (tested s1) (tested s1')"
    by simp
  with a b f f' that show thesis
    by simp
qed

lemma ddmin_loop_cached_sim:
  "distinct (map fst universe) \<Longrightarrow> subseq c universe \<Longrightarrow> run_inv test universe s
   \<Longrightarrow> run_inv test universe s' \<Longrightarrow> \<not> cache_outcomes s'
   \<Longrightarrow> subseq (tested s) (tested s')
   \<Longrightarrow> subseq (tested (snd (ddmin_loop_cached test s c n)))
         (tested (snd (ddmin_loop_cached test s' c n)))"
proof (induction test c n arbitrary: s s' rule: ddmin_loop.induct)
  case (1 test c n)
  note dist = "1.prems"(1) and subc = "1.prems"(2)
  show ?case
  proof (cases "n < 2 \<or> length c < n")
    case True
    then show ?thesis
      using "1.prems"(6) by (simp add: ddmin_loop_cached.simps)
  next
    case guard: False
    then have n2: "2 \<le> n" and nc: "n \<le> length c"
      by simp_all
    let ?ps = "partition_config c n"
    let ?cs = "complements ?ps"
    have sub1: "\<forall>d\<in>set ?ps. subseq d universe"
      using piece_props(2)[OF n2 nc] subc by (blast intro: subseq_order.trans)
    have sub2: "\<forall>d\<in>set ?cs. subseq d universe"
      using complement_props(2)[OF n2 nc] subc by (blast intro: subseq_order.trans)
    from find_fail_pair[OF dist "1.prems"(3,4,5,6) sub1]
    obtain s1 s1' where
      f1: "find_fail test s ?ps = (find (\<lambda>d. test d = FAIL) ?ps, s1)" and
      f1': "find_fail test s' ?ps = (find (\<lambda>d. test d = FAIL) ?ps, s1')" and
      i1: "run_inv test universe s1" "run_inv test universe s1'"
        "\<not> cache_outcomes s1'" "subseq (tested s1) (tested s1')"
      by blast
    show ?thesis
    proof (cases "find (\<lambda>d. test d = FAIL) ?ps")
      case (Some d)
      then have "d \<in> set ?ps"
        by (auto simp: find_Some_iff)
      with sub1 have sd: "subseq d universe"
        by blast
      from "1.IH"(3)[OF guard Some dist sd i1] guard f1 f1' Some show ?thesis
        by (simp add: ddmin_loop_cached.simps[of test s c n]
            ddmin_loop_cached.simps[of test s' c n])
    next
      case None
      from find_fail_pair[OF dist i1 sub2]
      obtain s2 s2' where
        f2: "find_fail test s1 ?cs = (find (\<lambda>d. test d = FAIL) ?cs, s2)" and
        f2': "find_fail test s1' ?cs = (find (\<lambda>d. test d = FAIL) ?cs, s2')" and
        i2: "run_inv test universe s2" "run_inv test universe s2'"
          "\<not> cache_outcomes s2'" "subseq (tested s2) (tested s2')"
        by blast
      show ?thesis
      proof (cases "find (\<lambda>d. test d = FAIL) ?cs")
        case (Some d)
        then have "d \<in> set ?cs"
          by (auto simp: find_Some_iff)
        with sub2 have sd: "subseq d universe"
          by blast
        from "1.IH"(2)[OF guard None Some dist sd i2] guard f1 f1' f2 f2' None Some
        show ?thesis
          by (simp add: ddmin_loop_cached.simps[of test s c n]
              ddmin_loop_cached.simps[of test s' c n])
      next
        case None2: None
        show ?thesis
        proof (cases "n < length c")
          case True
          from "1.IH"(1)[OF guard None None2 True dist subc i2] guard f1 f1' f2 f2'
            None None2 True
          show ?thesis
            by (simp add: ddmin_loop_cached.simps[of test s c n]
                ddmin_loop_cached.simps[of test s' c n])
        next
          case False
          with guard f1 f1' f2 f2' None None2 i2 show ?thesis
            by (simp add: ddmin_loop_cached.simps[of test s c n]
                ddmin_loop_cached.simps[of test s' c n])
        qed
      qed
    qed
  qed
qed

lemma ddmin_cached_sim:
  assumes "distinct (map fst universe)"
  shows "subseq (tested (snd (ddmin_cached True test universe)))
           (tested (snd (ddmin_cached False test universe)))"
proof -
  let ?s0 = "initial_state True :: 'a dd_state"
  let ?s0' = "initial_state False :: 'a dd_state"
  obtain v s where t: "test_cached test ?s0 universe = (v, s)"
    by (cases "test_cached test ?s0 universe")
  obtain v' s' where t': "test_cached test ?s0' universe = (v', s')"
    by (cases "test_cached test ?s0' universe")
  have off0: "\<not> cache_outcomes ?s0'"
    by (simp add: initial_state_def)
  have sim0: "subseq (tested ?s0) (tested ?s0')"
    by (simp add: initial_state_def)
  from test_cached_run[OF assms run_inv_initial subseq_order.refl, of test True] t
  have v: "v = test universe" and inv: "run_inv test universe s"
    by simp_all
  from test_cached_run[OF assms run_inv_initial subseq_order.refl, of test False] t' off0
  have v': "v' = test universe" and inv': "run_inv test universe s'"
    and off: "\<not> cache_outcomes s'"
    by simp_all
  from test_cached_sim[OF off0 sim0, of test universe] t t'
  have sim: "subseq (tested s) (tested s')"
    by simp
  show ?thesis
  proof (cases "test universe = FAIL")
    case False
    with t t' v v' sim show ?thesis
      by (simp add: ddmin_cached_def)
  next
    case True
    from ddmin_loop_cached_sim[OF assms subseq_order.refl inv inv' off sim, of 2]
      True t t' v v'
    show ?thesis
      by (auto simp: ddmin_cached_def split: prod.splits)
  qed
qed

subsection \<open>Cache transparency\<close>

text \<open>
  C6: for every universe (a configuration, so without duplicate indices) and every
  oracle that is a function of the configuration, \<open>ddmin\<close> with the outcome cache
  enabled returns exactly what it returns with the cache disabled, which is the result
  of the search of section 4.3. With caching disabled, \<open>lookup\<close> always misses and
  \<open>record\<close> is a no-op. Only the oracle invocations differ: those of the run with the
  cache are a subsequence of those of the run without it, so there are at most as many.
\<close>

theorem cache_transparency:
  assumes "distinct (map fst universe)"
  shows "fst (ddmin_cached True test universe) = fst (ddmin_cached False test universe)
         \<and> fst (ddmin_cached enabled test universe) = ddmin test universe
         \<and> subseq (tested (snd (ddmin_cached True test universe)))
              (tested (snd (ddmin_cached False test universe)))
         \<and> length (tested (snd (ddmin_cached True test universe)))
              \<le> length (tested (snd (ddmin_cached False test universe)))
         \<and> lookup (s\<lparr>cache_outcomes := False\<rparr>) c = None
         \<and> record_outcome (s\<lparr>cache_outcomes := False\<rparr>) c v = s\<lparr>cache_outcomes := False\<rparr>"
proof -
  have same: "fst (ddmin_cached True test universe) = fst (ddmin_cached False test universe)"
    using ddmin_cached_run(1)[OF assms, of True test] ddmin_cached_run(1)[OF assms, of False test]
    by simp
  have pure: "fst (ddmin_cached enabled test universe) = ddmin test universe"
    using assms by (rule ddmin_cached_run(1))
  have calls: "subseq (tested (snd (ddmin_cached True test universe)))
                 (tested (snd (ddmin_cached False test universe)))"
    using assms by (rule ddmin_cached_sim)
  then have fewer: "length (tested (snd (ddmin_cached True test universe)))
                      \<le> length (tested (snd (ddmin_cached False test universe)))"
    by (rule list_emb_length)
  have miss: "lookup (s\<lparr>cache_outcomes := False\<rparr>) c = None"
    by (simp add: lookup_def)
  have noop: "record_outcome (s\<lparr>cache_outcomes := False\<rparr>) c v = s\<lparr>cache_outcomes := False\<rparr>"
    by (simp add: record_outcome_def)
  from same pure calls fewer miss noop show ?thesis
    by simp
qed

theorem cache_transparency_witness:
  "distinct (map fst (string_to_deltas ''12345678''))
   \<and> fst (ddmin_cached True TestDD_test (string_to_deltas ''12345678''))
       = fst (ddmin_cached False TestDD_test (string_to_deltas ''12345678''))
   \<and> fst (ddmin_cached True TestDD_test (string_to_deltas ''12345678''))
       = Inr [(0, ''1''), (6, ''7''), (7, ''8'')]
   \<and> length (tested (snd (ddmin_cached True TestDD_test (string_to_deltas ''12345678''))))
       = 18
   \<and> length (tested (snd (ddmin_cached False TestDD_test (string_to_deltas ''12345678''))))
       = 32"
proof -
  have d: "distinct (map fst (string_to_deltas ''12345678''))"
    by code_simp
  have a: "fst (ddmin_cached True TestDD_test (string_to_deltas ''12345678''))
             = fst (ddmin_cached False TestDD_test (string_to_deltas ''12345678''))"
    using cache_transparency[OF d, of TestDD_test] by (rule conjunct1)
  have b: "fst (ddmin_cached True TestDD_test (string_to_deltas ''12345678''))
             = Inr [(0, ''1''), (6, ''7''), (7, ''8'')]"
    by code_simp
  have e: "length (tested (snd (ddmin_cached True TestDD_test
             (string_to_deltas ''12345678'')))) = 18"
    by code_simp
  have f: "length (tested (snd (ddmin_cached False TestDD_test
             (string_to_deltas ''12345678'')))) = 32"
    by code_simp
  from d a b e f show ?thesis
    by simp
qed

subsection \<open>Configurations are in ascending index order\<close>

text \<open>
  The ingestion loop of the main program of dd-return-code.py (the same loop is in
  dd-ccd2cue.py and dd-socket-example.py): \<open>index\<close> starts at 1 and each element of the
  data read is appended to \<open>deltas\<close> with the current index.
\<close>

fun load_loop :: "int \<Rightarrow> 'a list \<Rightarrow> (int \<times> 'a) list \<Rightarrow> (int \<times> 'a) list" where
  "load_loop index [] deltas = deltas"
| "load_loop index (character # rest) deltas =
     load_loop (index + 1) rest (deltas @ [(index, character)])"

definition load_deltas :: "'a list \<Rightarrow> (int \<times> 'a) list" where
  "load_deltas data = load_loop 1 data []"

lemma load_loop_ascending:
  "sorted_wrt (<) (map fst deltas) \<Longrightarrow> \<forall>i\<in>set (map fst deltas). i < index
   \<Longrightarrow> sorted_wrt (<) (map fst (load_loop index data deltas))"
proof (induction data arbitrary: index deltas)
  case Nil
  then show ?case by simp
next
  case (Cons character rest)
  have "sorted_wrt (<) (map fst (deltas @ [(index, character)]))"
    using Cons.prems by (simp add: sorted_wrt_append)
  moreover have "\<forall>i\<in>set (map fst (deltas @ [(index, character)])). i < index + 1"
    using Cons.prems(2) by auto
  ultimately show ?case
    using Cons.IH[of "deltas @ [(index, character)]" "index + 1"] by simp
qed

lemma string_to_deltas_ascending: "sorted_wrt (<) (map fst (string_to_deltas test_input))"
proof -
  have "map fst (string_to_deltas test_input) = map int [0..<length test_input]"
    by (simp add: string_to_deltas_def comp_def)
  moreover have "sorted_wrt (<) (map int [0..<length test_input])"
    by (simp add: sorted_wrt_map)
  ultimately show ?thesis
    by simp
qed

lemma ddmin_loop_subseq: "subseq (ddmin_loop test c n) c"
proof (induction test c n rule: ddmin_loop.induct)
  case (1 test c n)
  show ?case
  proof (cases "n < 2 \<or> length c < n")
    case True
    then show ?thesis
      by (simp add: ddmin_loop.simps)
  next
    case guard: False
    then have n2: "2 \<le> n" and nc: "n \<le> length c"
      by simp_all
    let ?ps = "partition_config c n"
    let ?cs = "complements ?ps"
    show ?thesis
    proof (cases "find (\<lambda>d. test d = FAIL) ?ps")
      case (Some d)
      then have "d \<in> set ?ps"
        by (auto simp: find_Some_iff)
      then have "subseq d c"
        by (rule piece_props(2)[OF n2 nc])
      with "1.IH"(3)[OF guard Some] have "subseq (ddmin_loop test d 2) c"
        by (rule subseq_order.trans)
      with guard Some show ?thesis
        by (simp add: ddmin_loop.simps[of test c n])
    next
      case None
      show ?thesis
      proof (cases "find (\<lambda>d. test d = FAIL) ?cs")
        case (Some d)
        then have "d \<in> set ?cs"
          by (auto simp: find_Some_iff)
        then have "subseq d c"
          by (rule complement_props(2)[OF n2 nc])
        with "1.IH"(2)[OF guard None Some]
        have "subseq (ddmin_loop test d (max (n - 1) 2)) c"
          by (rule subseq_order.trans)
        with guard None Some show ?thesis
          by (simp add: ddmin_loop.simps[of test c n])
      next
        case None2: None
        show ?thesis
        proof (cases "n < length c")
          case True
          from "1.IH"(1)[OF guard None None2 True] guard None None2 True show ?thesis
            by (simp add: ddmin_loop.simps[of test c n])
        next
          case False
          with guard None None2 show ?thesis
            by (simp add: ddmin_loop.simps[of test c n])
        qed
      qed
    qed
  qed
qed

lemma ascending_subseq:
  fixes universe :: "(int \<times> 'a) list"
  assumes "sorted_wrt (<) (map fst universe)" "subseq c universe"
  shows "sorted_wrt (<) (map fst c)" and "distinct (map fst c)"
proof -
  have "subseq (map fst c) (map fst universe)"
    using assms(2) by (rule subseq_map)
  then show "sorted_wrt (<) (map fst c)"
    using assms(1) by (rule subseq_sorted_wrt)
  then show "distinct (map fst c)"
    by (simp add: strict_sorted_iff)
qed

text \<open>
  C7: the universe ingested by the main programs has strictly ascending indices; and
  in a run of \<open>ddmin\<close> on a universe with strictly ascending indices, with or without
  the cache, every configuration handed to the oracle and the configuration returned
  have strictly ascending indices and no duplicate index.
\<close>

theorem configurations_ascending:
  "sorted_wrt (<) (map fst (load_deltas data))
   \<and> distinct (map fst (load_deltas data))
   \<and> sorted_wrt (<) (map fst (string_to_deltas test_input))
   \<and> distinct (map fst (string_to_deltas test_input))
   \<and> (sorted_wrt (<) (map fst universe) \<longrightarrow>
        (\<forall>c\<in>set (tested (snd (ddmin_cached enabled test universe))).
            sorted_wrt (<) (map fst c) \<and> distinct (map fst c))
        \<and> (\<forall>m. fst (ddmin_cached enabled test universe) = Inr m \<longrightarrow>
              sorted_wrt (<) (map fst m) \<and> distinct (map fst m)))"
proof (intro conjI impI ballI allI)
  show l: "sorted_wrt (<) (map fst (load_deltas data))"
    unfolding load_deltas_def by (rule load_loop_ascending) simp_all
  then show "distinct (map fst (load_deltas data))"
    by (simp add: strict_sorted_iff)
  show "sorted_wrt (<) (map fst (string_to_deltas test_input))"
    by (rule string_to_deltas_ascending)
  then show "distinct (map fst (string_to_deltas test_input))"
    by (simp add: strict_sorted_iff)
next
  fix c
  assume asc: "sorted_wrt (<) (map fst universe)"
    and c: "c \<in> set (tested (snd (ddmin_cached enabled test universe)))"
  from asc have "distinct (map fst universe)"
    by (simp add: strict_sorted_iff)
  from ddmin_cached_run(2)[OF this, of test enabled] c have "subseq c universe"
    by (simp add: run_inv_def)
  with asc show "sorted_wrt (<) (map fst c)" "distinct (map fst c)"
    by (rule ascending_subseq)+
next
  fix m
  assume asc: "sorted_wrt (<) (map fst universe)"
    and m: "fst (ddmin_cached enabled test universe) = Inr m"
  from asc have "distinct (map fst universe)"
    by (simp add: strict_sorted_iff)
  from ddmin_cached_run(1)[OF this, of enabled test] m
  have "ddmin test universe = Inr m"
    by simp
  then have "m = ddmin_loop test universe 2"
    by (auto simp: ddmin_def split: if_splits)
  then have "subseq m universe"
    by (simp add: ddmin_loop_subseq)
  with asc show "sorted_wrt (<) (map fst m)" "distinct (map fst m)"
    by (rule ascending_subseq)+
qed

theorem configurations_ascending_witness:
  "load_deltas [67 :: int, 68, 10] = [(1, 67), (2, 68), (3, 10)]
   \<and> sorted_wrt (<) (map fst (load_deltas [67 :: int, 68, 10]))
   \<and> fst (ddmin_cached True TestDD_test (string_to_deltas ''12345678''))
       = Inr [(0, ''1''), (6, ''7''), (7, ''8'')]
   \<and> sorted_wrt (<) (map fst [(0 :: int, ''1''), (6, ''7''), (7, ''8'')])"
proof -
  note t = configurations_ascending
    [of "[67 :: int, 68, 10]" "''12345678''" "string_to_deltas ''12345678''" True TestDD_test]
  have a: "load_deltas [67 :: int, 68, 10] = [(1, 67), (2, 68), (3, 10)]"
    by (simp add: load_deltas_def)
  have b: "sorted_wrt (<) (map fst (load_deltas [67 :: int, 68, 10]))"
    using t by (rule conjunct1)
  have u: "sorted_wrt (<) (map fst (string_to_deltas ''12345678''))"
    using t by (elim conjE)
  have r: "fst (ddmin_cached True TestDD_test (string_to_deltas ''12345678''))
             = Inr [(0, ''1''), (6, ''7''), (7, ''8'')]"
    by code_simp
  have "\<forall>m. fst (ddmin_cached True TestDD_test (string_to_deltas ''12345678'')) = Inr m \<longrightarrow>
              sorted_wrt (<) (map fst m) \<and> distinct (map fst m)"
    using t[THEN conjunct2, THEN conjunct2, THEN conjunct2, THEN conjunct2, THEN mp, OF u]
    by (rule conjunct2)
  with r have s: "sorted_wrt (<) (map fst [(0 :: int, ''1''), (6, ''7''), (7, ''8'')])"
    by blast
  from a b r s show ?thesis
    by simp
qed

end
